theory Spec2Isabelle
  imports Main
begin

section \<open>JavaScript values as the handlers see them\<close>

text \<open>
  The handlers of \<^verbatim>\<open>src/backend/routes/incomingCalls.js\<close> read fields of a parsed request
  (\<^verbatim>\<open>req.body\<close>, \<^verbatim>\<open>req.query\<close>, a header) and rows of a database result. Such a field is
  absent (\<^verbatim>\<open>undefined\<close>) or a JSON value. A number is carried by its canonical
  rendering (what \<^verbatim>\<open>String(n)\<close> returns): the code only ever converts a number to a string
  or tests its truthiness, and both are functions of that rendering. An object is the list
  of its own properties. A string is a list of code units in the range U+0000..U+00FF;
  code units above U+00FF are outside the model.
\<close>

datatype js_error = TypeError | WriteError | DbError

datatype jsval =
    JUndefined
  | JNull
  | JBool bool
  | JNum string
  | JStr string
  | JArr "jsval list"
  | JObj "(string \<times> jsval) list"

text \<open>\<^verbatim>\<open>x == null\<close>: true of \<^verbatim>\<open>null\<close> and \<^verbatim>\<open>undefined\<close> only.\<close>

fun nullish :: "jsval \<Rightarrow> bool" where
  "nullish JUndefined = True"
| "nullish JNull = True"
| "nullish _ = False"

text \<open>ToBoolean: \<^verbatim>\<open>undefined\<close>, \<^verbatim>\<open>null\<close>, \<^verbatim>\<open>false\<close>, \<^verbatim>\<open>0\<close>, \<^verbatim>\<open>NaN\<close> and \<^verbatim>\<open>''\<close> are falsy.\<close>

fun truthy :: "jsval \<Rightarrow> bool" where
  "truthy JUndefined = False"
| "truthy JNull = False"
| "truthy (JBool b) = b"
| "truthy (JNum r) = (r \<noteq> ''0'' \<and> r \<noteq> ''NaN'')"
| "truthy (JStr s) = (s \<noteq> [])"
| "truthy (JArr _) = True"
| "truthy (JObj _) = True"

text \<open>\<^verbatim>\<open>a || b\<close> and \<^verbatim>\<open>a ?? b\<close>.\<close>

definition js_or :: "jsval \<Rightarrow> jsval \<Rightarrow> jsval" where
  "js_or a b = (if truthy a then a else b)"

definition js_coalesce :: "jsval \<Rightarrow> jsval \<Rightarrow> jsval" where
  "js_coalesce a b = (if nullish a then b else a)"

text \<open>
  \<^verbatim>\<open>String(v)\<close>. An array joins the conversions of its elements with a comma, an absent or
  null element giving the empty string. A plain object converts through
  \<^verbatim>\<open>Object.prototype.toString\<close> to \<^verbatim>\<open>[object Object]\<close>, unless it has an own property
  \<^verbatim>\<open>toString\<close>: a JSON value is never callable, the inherited \<^verbatim>\<open>valueOf\<close> returns the
  object itself, and the conversion throws a TypeError.
\<close>

fun js_String :: "jsval \<Rightarrow> js_error + string"
  and js_join :: "jsval list \<Rightarrow> js_error + string" where
  "js_String JUndefined = Inr ''undefined''"
| "js_String JNull = Inr ''null''"
| "js_String (JBool b) = Inr (if b then ''true'' else ''false'')"
| "js_String (JNum r) = Inr r"
| "js_String (JStr s) = Inr s"
| "js_String (JArr xs) = js_join xs"
| "js_String (JObj ps) =
     (if ''toString'' \<in> fst ` set ps then Inl TypeError else Inr ''[object Object]'')"
| "js_join [] = Inr []"
| "js_join (x # xs) =
     (case (if nullish x then Inr [] else js_String x) of
        Inl e \<Rightarrow> Inl e
      | Inr s \<Rightarrow>
          (if xs = [] then Inr s
           else (case js_join xs of Inl e \<Rightarrow> Inl e | Inr r \<Rightarrow> Inr (s @ '','' @ r))))"

subsection \<open>String operations\<close>

text \<open>White space and line terminators that \<^verbatim>\<open>trim\<close> removes, below U+0100.\<close>

definition is_space :: "char \<Rightarrow> bool" where
  "is_space c = ((of_char c :: nat) \<in> {9, 10, 11, 12, 13, 32, 160})"

definition js_trim :: "string \<Rightarrow> string" where
  "js_trim s = rev (dropWhile is_space (rev (dropWhile is_space s)))"

text \<open>\<^verbatim>\<open>toLowerCase\<close> below U+0100: A..Z and the Latin-1 capitals U+00C0..U+00DE but U+00D7.\<close>

definition lower_char :: "char \<Rightarrow> char" where
  "lower_char c =
     (let n = (of_char c :: nat)
      in if (65 \<le> n \<and> n \<le> 90) \<or> (192 \<le> n \<and> n \<le> 222 \<and> n \<noteq> 215)
         then char_of (n + 32) else c)"

definition toLowerCase :: "string \<Rightarrow> string" where
  "toLowerCase s = map lower_char s"

text \<open>The class \<^verbatim>\<open>\d\<close>; \<^verbatim>\<open>\D\<close> is its complement.\<close>

definition is_digit :: "char \<Rightarrow> bool" where
  "is_digit c = (c \<in> set ''0123456789'')"

definition startsWith_plus :: "string \<Rightarrow> bool" where
  "startsWith_plus s = (case s of [] \<Rightarrow> False | c # _ \<Rightarrow> c = CHR ''+'')"

section \<open>The event normalizer\<close>

definition STATUS_LABELS :: "string set" where
  "STATUS_LABELS = {''ringing'', ''answered'', ''missed'', ''rejected''}"

definition normalizeStatus :: "jsval \<Rightarrow> js_error + string" where
  "normalizeStatus rawStatus =
     (if \<not> truthy rawStatus then Inr ''ringing''
      else case js_String rawStatus of
        Inl e \<Rightarrow> Inl e
      | Inr str \<Rightarrow>
          (let status = toLowerCase (js_trim str)
           in if status \<in> STATUS_LABELS then Inr status
              else if status = ''no_answer'' \<or> status = ''noanswer'' then Inr ''missed''
              else Inr ''ringing''))"

record phone =
  display :: string
  digits :: string

definition sanitizePhone :: "jsval \<Rightarrow> js_error + phone" where
  "sanitizePhone rawValue =
     (if nullish rawValue then Inr \<lparr>display = [], digits = []\<rparr>
      else case js_String rawValue of
        Inl e \<Rightarrow> Inl e
      | Inr s \<Rightarrow>
          (let str = js_trim s
           in if str = [] then Inr \<lparr>display = [], digits = []\<rparr>
              else
                (let digits0 = filter is_digit str;
                     startsWithPlus = startsWith_plus str
                 in if digits0 = [] then Inr \<lparr>display = [], digits = []\<rparr>
                    else
                      (let digits1 = (if length digits0 > 20 then take 20 digits0 else digits0);
                           display1 = (if startsWithPlus then CHR ''+'' # digits1 else digits1)
                       in Inr \<lparr>display = display1, digits = digits1\<rparr>))))"

text \<open>\<^verbatim>\<open>String(n)\<close> for the sequence counter, a non-negative integer.\<close>

fun string_of_nat :: "nat \<Rightarrow> string" where
  "string_of_nat n =
     (if n < 10 then [''0123456789'' ! n]
      else string_of_nat (n div 10) @ [''0123456789'' ! (n mod 10)])"

declare string_of_nat.simps [simp del]

section \<open>Process state\<close>

text \<open>
  A stored call entry: the object built by the ingestion handler (\<^verbatim>\<open>event\<close> spread into
  \<^verbatim>\<open>entry\<close>, with \<^verbatim>\<open>meta.callerName\<close> and \<^verbatim>\<open>meta.personId\<close>). A field that is a string or
  \<^verbatim>\<open>null\<close> is a \<open>string option\<close>.
\<close>

record entry =
  ev_id :: string
  ev_phone :: string
  ev_digits :: string
  ev_extension :: "string option"
  ev_source :: "string option"
  ev_received_at :: string
  ev_status :: string
  ev_note :: "string option"
  meta_callerName :: "string option"
  meta_personId :: jsval

text \<open>
  A listener is \<^verbatim>\<open>{ res, heartbeat }\<close>: the response it writes to, named by its connection,
  and the handle of its interval timer. Each session has a connection and a timer handle of
  its own, so the pair stands for the object's identity.
\<close>

record listener =
  res :: nat
  heartbeat :: "nat option"

text \<open>
  The module's variables (\<^verbatim>\<open>listeners\<close>, \<^verbatim>\<open>lastCall\<close>, \<^verbatim>\<open>sequence\<close>,
  \<^verbatim>\<open>secretWarningLogged\<close>, \<^verbatim>\<open>callHistory\<close>) and the part of the runtime they act on: the
  interval timers that are still scheduled, the connections on which a write throws, the
  frames written to each connection so far, and the number of warnings printed.
  \<^verbatim>\<open>listeners\<close> is a \<^verbatim>\<open>Set\<close>: a list without repetition, in insertion order. The counter is
  a \<open>nat\<close>: a JavaScript number counts exactly up to \<open>2 ^ 53\<close>.
\<close>

record state =
  listeners :: "listener list"
  lastCall :: "entry option"
  sequence :: nat
  secretWarningLogged :: bool
  callHistory :: "entry list"
  timers :: "nat set"
  broken :: "nat set"
  wire :: "nat \<Rightarrow> string list"
  warnings :: nat

definition init_state :: state where
  "init_state =
     \<lparr>listeners = [], lastCall = None, sequence = 0, secretWarningLogged = False,
      callHistory = [], timers = {}, broken = {}, wire = (\<lambda>_. []), warnings = 0\<rparr>"

text \<open>A row of the \<^verbatim>\<open>people\<close> table as the driver returns it, and what the log keeps of it.\<close>

record row =
  row_id :: jsval
  row_name :: jsval
  row_phone :: jsval

record person =
  person_id :: jsval
  person_name :: jsval

text \<open>
  What the module takes from outside: \<^verbatim>\<open>process.env.PBX_WEBHOOK_SECRET\<close>,
  \<^verbatim>\<open>JSON.stringify\<close> on an entry, and \<^verbatim>\<open>db.query\<close> on the list of digits (its promise is
  rejected, or it resolves to rows, a row possibly \<^verbatim>\<open>null\<close>).
\<close>

record env =
  PBX_WEBHOOK_SECRET :: "string option"
  JSON_stringify :: "entry \<Rightarrow> string"
  db_query :: "string list \<Rightarrow> js_error + row option list"

definition MAX_HISTORY :: nat where
  "MAX_HISTORY = 500"

section \<open>History ring\<close>

text \<open>\<^verbatim>\<open>unshift\<close> the entry; \<^verbatim>\<open>pop\<close> the last one when the length exceeds \<^verbatim>\<open>MAX_HISTORY\<close>.\<close>

definition storeInHistory :: "'a \<Rightarrow> 'a list \<Rightarrow> 'a list" where
  "storeInHistory entry h =
     (let h1 = entry # h in if length h1 > MAX_HISTORY then butlast h1 else h1)"

section \<open>Broadcast hub\<close>

text \<open>\<^verbatim>\<open>Set.prototype.add\<close> and \<^verbatim>\<open>Set.prototype.delete\<close> on the listener set.\<close>

definition set_add :: "'a \<Rightarrow> 'a list \<Rightarrow> 'a list" where
  "set_add x xs = (if x \<in> set xs then xs else xs @ [x])"

definition set_delete :: "'a \<Rightarrow> 'a list \<Rightarrow> 'a list" where
  "set_delete x xs = removeAll x xs"

definition cleanupListener :: "listener option \<Rightarrow> state \<Rightarrow> state" where
  "cleanupListener lo s =
     (case lo of
        None \<Rightarrow> s
      | Some l \<Rightarrow>
          (let s1 = (case heartbeat l of
                       None \<Rightarrow> s
                     | Some t \<Rightarrow> s\<lparr>timers := timers s - {t}\<rparr>)
           in s1\<lparr>listeners := set_delete l (listeners s1)\<rparr>))"

text \<open>\<^verbatim>\<open>res.write(frame)\<close> on connection \<open>c\<close>: throws on a broken connection.\<close>

definition res_write :: "nat \<Rightarrow> string \<Rightarrow> state \<Rightarrow> js_error + state" where
  "res_write c frame s =
     (if c \<in> broken s then Inl WriteError
      else Inr (s\<lparr>wire := (wire s)(c := wire s c @ [frame])\<rparr>))"

definition newline :: char where
  "newline = CHR 0x0A"

definition payload_of :: "env \<Rightarrow> entry \<Rightarrow> string" where
  "payload_of env event =
     ''id: '' @ ev_id event @ [newline] @ ''event: call'' @ [newline] @
     ''data: '' @ JSON_stringify env event @ [newline, newline]"

text \<open>The loop of \<^verbatim>\<open>broadcast\<close> runs over \<^verbatim>\<open>Array.from(listeners)\<close>, a copy taken before it.\<close>

fun broadcast_loop :: "string \<Rightarrow> listener list \<Rightarrow> state \<Rightarrow> state" where
  "broadcast_loop payload [] s = s"
| "broadcast_loop payload (l # ls) s =
     broadcast_loop payload ls
       (case res_write (res l) payload s of
          Inr s1 \<Rightarrow> s1
        | Inl err \<Rightarrow> cleanupListener (Some l) s)"

definition broadcast :: "env \<Rightarrow> entry \<Rightarrow> state \<Rightarrow> state" where
  "broadcast env event s = broadcast_loop (payload_of env event) (listeners s) s"

text \<open>
  The interval callback of a session. The runtime calls it only while the timer is
  scheduled, that is until \<^verbatim>\<open>clearInterval\<close> is called on its handle.
\<close>

definition keep_alive :: string where
  "keep_alive = '': keep-alive'' @ [newline, newline]"

definition heartbeat_fire :: "listener \<Rightarrow> state \<Rightarrow> state" where
  "heartbeat_fire l s =
     (case res_write (res l) keep_alive s of
        Inr s1 \<Rightarrow> s1
      | Inl err \<Rightarrow> cleanupListener (Some l) s)"

definition timer_tick :: "listener \<Rightarrow> state \<Rightarrow> state" where
  "timer_tick l s =
     (case heartbeat l of
        None \<Rightarrow> s
      | Some t \<Rightarrow> if t \<in> timers s then heartbeat_fire l s else s)"

section \<open>Ingestion endpoint\<close>

text \<open>
  What the \<^verbatim>\<open>POST\<close> handler reads: the header \<^verbatim>\<open>x-pbx-secret\<close>, \<^verbatim>\<open>req.query.secret\<close>, the
  fields of \<^verbatim>\<open>req.body\<close>, and the clock (\<^verbatim>\<open>new Date().toISOString()\<close>). A missing body,
  query or field reads as \<^verbatim>\<open>undefined\<close> through \<^verbatim>\<open>?.\<close>.
\<close>

record request =
  header_secret :: jsval
  query_secret :: jsval
  body_secret :: jsval
  body_phone :: jsval
  body_caller :: jsval
  body_number :: jsval
  body_extension :: jsval
  body_source :: jsval
  body_status :: jsval
  body_note :: jsval
  body_name :: jsval
  body_person_id :: jsval
  now :: string

definition empty_request :: request where
  "empty_request =
     \<lparr>header_secret = JUndefined, query_secret = JUndefined, body_secret = JUndefined,
      body_phone = JUndefined, body_caller = JUndefined, body_number = JUndefined,
      body_extension = JUndefined, body_source = JUndefined, body_status = JUndefined,
      body_note = JUndefined, body_name = JUndefined, body_person_id = JUndefined,
      now = ''2024-01-01T00:00:00.000Z''\<rparr>"

text \<open>The body of a JSON response, and how a handler ends.\<close>

record log_entry =
  le_id :: string
  le_phone :: string
  le_digits :: string
  le_received_at :: string
  le_extension :: "string option"
  le_source :: "string option"
  le_status :: string
  le_note :: "string option"
  caller_name :: jsval
  le_person_id :: jsval

datatype body =
    ErrorBody string
  | SuccessBody
  | CallBody "entry option"
  | EntriesBody "log_entry list"

datatype outcome =
    Json nat body
  | Stream
  | Threw js_error

text \<open>\<^verbatim>\<open>s || null\<close> on a string.\<close>

definition or_null :: "string \<Rightarrow> string option" where
  "or_null s = (if s = [] then None else Some s)"

text \<open>\<^verbatim>\<open>v != null ? String(v).trim() : null\<close>, then \<^verbatim>\<open>x || null\<close> where the entry is built.\<close>

definition trimmed_field :: "jsval \<Rightarrow> js_error + string option" where
  "trimmed_field v =
     (if nullish v then Inr None
      else case js_String v of Inl e \<Rightarrow> Inl e | Inr s \<Rightarrow> Inr (or_null (js_trim s)))"

text \<open>\<^verbatim>\<open>typeof v === 'string' ? v.trim() : null\<close>, then \<^verbatim>\<open>x || null\<close>.\<close>

definition string_field :: "jsval \<Rightarrow> string option" where
  "string_field v = (case v of JStr s \<Rightarrow> or_null (js_trim s) | _ \<Rightarrow> None)"

definition providedSecret :: "request \<Rightarrow> jsval" where
  "providedSecret req = js_or (js_or (header_secret req) (body_secret req)) (query_secret req)"

definition raw_phone :: "request \<Rightarrow> jsval" where
  "raw_phone req =
     js_coalesce (js_coalesce (js_coalesce (body_phone req) (body_caller req)) (body_number req))
       (JStr [])"

text \<open>\<^verbatim>\<open>if (expectedSecret)\<close>: the variable is set and not empty.\<close>

definition secret_configured :: "env \<Rightarrow> bool" where
  "secret_configured env =
     (case PBX_WEBHOOK_SECRET env of None \<Rightarrow> False | Some x \<Rightarrow> x \<noteq> [])"

definition secret_rejected :: "env \<Rightarrow> request \<Rightarrow> bool" where
  "secret_rejected env req =
     (case PBX_WEBHOOK_SECRET env of
        None \<Rightarrow> False
      | Some x \<Rightarrow>
          x \<noteq> [] \<and> (\<not> truthy (providedSecret req) \<or> providedSecret req \<noteq> JStr x))"

text \<open>
  The handler of \<^verbatim>\<open>router.post('/')\<close>, statement by statement. An exception that leaves the
  handler is the outcome \<open>Threw\<close>; the state is what the handler had written by then.
\<close>

definition post :: "env \<Rightarrow> request \<Rightarrow> state \<Rightarrow> outcome \<times> state" where
  "post env req s =
     (if secret_rejected env req then (Json 401 (ErrorBody ''invalid secret''), s)
      else
        (let s1 = (if \<not> secret_configured env \<and> \<not> secretWarningLogged s
                   then s\<lparr>secretWarningLogged := True, warnings := warnings s + 1\<rparr>
                   else s)
         in case sanitizePhone (raw_phone req) of
              Inl e \<Rightarrow> (Threw e, s1)
            | Inr ph \<Rightarrow>
                if display ph = [] \<and> digits ph = []
                then (Json 400 (ErrorBody ''phone missing''), s1)
                else
                  (case trimmed_field (body_extension req) of
                     Inl e \<Rightarrow> (Threw e, s1)
                   | Inr extension \<Rightarrow>
                       (case trimmed_field (body_source req) of
                          Inl e \<Rightarrow> (Threw e, s1)
                        | Inr source \<Rightarrow>
                            (let s2 = s1\<lparr>sequence := sequence s1 + 1\<rparr>
                             in case normalizeStatus (body_status req) of
                                  Inl e \<Rightarrow> (Threw e, s2)
                                | Inr status \<Rightarrow>
                                    (let entry =
                                           \<lparr>ev_id = string_of_nat (sequence s2),
                                            ev_phone = (if display ph \<noteq> [] then display ph
                                                        else digits ph),
                                            ev_digits = digits ph,
                                            ev_extension = extension,
                                            ev_source = source,
                                            ev_received_at = now req,
                                            ev_status = status,
                                            ev_note = string_field (body_note req),
                                            meta_callerName = string_field (body_name req),
                                            meta_personId =
                                              js_coalesce (body_person_id req) JNull\<rparr>;
                                         s3 = s2\<lparr>callHistory :=
                                                   storeInHistory entry (callHistory s2)\<rparr>;
                                         s4 = s3\<lparr>lastCall := Some entry\<rparr>
                                     in (Json 200 SuccessBody, broadcast env entry s4)))))))"

section \<open>Stream and query endpoints\<close>

definition retry_hint :: string where
  "retry_hint = ''retry: 4000'' @ [newline, newline]"

text \<open>
  \<^verbatim>\<open>router.get('/stream')\<close> for a request that is authorized or not, on connection \<open>c\<close>,
  \<^verbatim>\<open>setInterval\<close> returning the handle \<open>t\<close>.
\<close>

definition stream :: "env \<Rightarrow> bool \<Rightarrow> nat \<Rightarrow> nat \<Rightarrow> state \<Rightarrow> outcome \<times> state" where
  "stream env user c t s =
     (if \<not> user then (Json 401 (ErrorBody ''auth required''), s)
      else case res_write c retry_hint s of
        Inl e \<Rightarrow> (Threw e, s)
      | Inr s1 \<Rightarrow>
          (let l = \<lparr>res = c, heartbeat = Some t\<rparr>;
               s2 = s1\<lparr>timers := insert t (timers s1)\<rparr>;
               s3 = s2\<lparr>listeners := set_add l (listeners s2)\<rparr>
           in case lastCall s3 of
                None \<Rightarrow> (Stream, s3)
              | Some e \<Rightarrow>
                  (case res_write c (payload_of env e) s3 of
                     Inl err \<Rightarrow> (Threw err, s3)
                   | Inr s4 \<Rightarrow> (Stream, s4))))"

definition get_last :: "bool \<Rightarrow> state \<Rightarrow> outcome \<times> state" where
  "get_last user s =
     (if \<not> user then (Json 401 (ErrorBody ''auth required''), s)
      else (Json 200 (CallBody (lastCall s)), s))"

subsection \<open>History read\<close>

text \<open>
  \<^verbatim>\<open>Number.parseInt(v, 10)\<close> on the string conversion of \<open>v\<close>: leading white space, an
  optional sign, then the longest run of decimal digits; \<open>None\<close> is \<^verbatim>\<open>NaN\<close>. The result is
  the integer the digits denote. The handler only keeps it after clamping to
  \<open>1..MAX_HISTORY\<close>, where the rounding of a large value to a double changes nothing, and
  \<^verbatim>\<open>-0\<close> is as falsy as \<^verbatim>\<open>0\<close>.
\<close>

definition digit_value :: "char \<Rightarrow> int" where
  "digit_value c = int (of_char c) - 48"

definition decimal_value :: "string \<Rightarrow> int" where
  "decimal_value ds = foldl (\<lambda>a c. 10 * a + digit_value c) 0 ds"

definition parseInt10 :: "string \<Rightarrow> int option" where
  "parseInt10 str =
     (let s = dropWhile is_space str;
          neg = (case s of [] \<Rightarrow> False | c # _ \<Rightarrow> c = CHR ''-'');
          signed = (case s of [] \<Rightarrow> False | c # _ \<Rightarrow> c = CHR ''-'' \<or> c = CHR ''+'');
          ds = takeWhile is_digit (if signed then tl s else s)
      in if ds = [] then None
         else Some (if neg then - decimal_value ds else decimal_value ds))"

text \<open>
  \<^verbatim>\<open>Math.max(1, Math.min(Number.parseInt(req.query?.limit, 10) || 100, MAX_HISTORY))\<close>:
  \<^verbatim>\<open>NaN\<close> and \<^verbatim>\<open>0\<close> are falsy and give 100.
\<close>

definition log_limit :: "jsval \<Rightarrow> js_error + nat" where
  "log_limit q =
     (case js_String q of
        Inl e \<Rightarrow> Inl e
      | Inr str \<Rightarrow>
          (let parsed = (case parseInt10 str of
                           None \<Rightarrow> 100
                         | Some v \<Rightarrow> if v = 0 then 100 else v)
           in Inr (nat (max 1 (min parsed (int MAX_HISTORY))))))"

text \<open>
  \<^verbatim>\<open>Array.from(new Set(slice.map((entry) => entry.digits).filter(Boolean)))\<close>: the non-empty
  digit strings of the slice, each once, in the order of first occurrence.
\<close>

definition distinct_digits :: "entry list \<Rightarrow> string list" where
  "distinct_digits slice =
     fold set_add (filter (\<lambda>d. d \<noteq> []) (map ev_digits slice)) []"

text \<open>
  The loop over \<^verbatim>\<open>rowsRes.rows\<close> filling \<^verbatim>\<open>peopleByPhone\<close>, an object used as a dictionary:
  a \<^verbatim>\<open>null\<close> row and a row with a falsy or blank phone are skipped, the first row of a key
  wins. The loop is inside the \<^verbatim>\<open>try\<close>: should \<^verbatim>\<open>String(row.phone)\<close> throw, the rows before
  it stay in the dictionary. The handler reads the dictionary only at \<^verbatim>\<open>entry.digits\<close>,
  a non-empty string of digits in every stored entry, so own properties are all it sees.
\<close>

fun load_people :: "row option list \<Rightarrow> (string \<rightharpoonup> person) \<Rightarrow> (string \<rightharpoonup> person)" where
  "load_people [] m = m"
| "load_people (None # rs) m = load_people rs m"
| "load_people (Some r # rs) m =
     (if \<not> truthy (row_phone r) then load_people rs m
      else case js_String (row_phone r) of
        Inl e \<Rightarrow> m
      | Inr str \<Rightarrow>
          (let key = js_trim str
           in if key = [] then load_people rs m
              else if m key \<noteq> None then load_people rs m
              else load_people rs (m(key \<mapsto> \<lparr>person_id = row_id r, person_name = row_name r\<rparr>))))"

definition people_by_phone :: "env \<Rightarrow> string list \<Rightarrow> (string \<rightharpoonup> person)" where
  "people_by_phone env ds =
     (if ds = [] then Map.empty
      else case db_query env ds of
        Inl err \<Rightarrow> Map.empty
      | Inr rows \<Rightarrow> load_people rows Map.empty)"

text \<open>\<^verbatim>\<open>person?.name\<close> and \<^verbatim>\<open>person?.id\<close>, \<^verbatim>\<open>person\<close> being \<^verbatim>\<open>null\<close> or \<^verbatim>\<open>undefined\<close> when there is none.\<close>

definition lookup_person :: "(string \<rightharpoonup> person) \<Rightarrow> entry \<Rightarrow> person option" where
  "lookup_person people e = (if ev_digits e \<noteq> [] then people (ev_digits e) else None)"

definition opt_name :: "person option \<Rightarrow> jsval" where
  "opt_name p = (case p of None \<Rightarrow> JUndefined | Some x \<Rightarrow> person_name x)"

definition opt_id :: "person option \<Rightarrow> jsval" where
  "opt_id p = (case p of None \<Rightarrow> JUndefined | Some x \<Rightarrow> person_id x)"

definition js_of_string_option :: "string option \<Rightarrow> jsval" where
  "js_of_string_option x = (case x of None \<Rightarrow> JNull | Some s \<Rightarrow> JStr s)"

definition log_row :: "(string \<rightharpoonup> person) \<Rightarrow> entry \<Rightarrow> log_entry" where
  "log_row people e =
     (let person = lookup_person people e
      in \<lparr>le_id = ev_id e,
          le_phone = ev_phone e,
          le_digits = ev_digits e,
          le_received_at = ev_received_at e,
          le_extension = ev_extension e,
          le_source = ev_source e,
          le_status = ev_status e,
          le_note = ev_note e,
          caller_name =
            js_or (js_or (js_of_string_option (meta_callerName e)) (opt_name person)) JNull,
          le_person_id = js_or (js_or (meta_personId e) (opt_id person)) JNull\<rparr>)"

definition get_log :: "env \<Rightarrow> bool \<Rightarrow> jsval \<Rightarrow> state \<Rightarrow> outcome \<times> state" where
  "get_log env user q s =
     (if \<not> user then (Json 401 (ErrorBody ''auth required''), s)
      else case log_limit q of
        Inl e \<Rightarrow> (Threw e, s)
      | Inr limit \<Rightarrow>
          (let slice = take limit (callHistory s);
               people = people_by_phone env (distinct_digits slice)
           in (Json 200 (EntriesBody (map (log_row people) slice)), s)))"

section \<open>Runs of the process\<close>

text \<open>
  What can happen to the process: a request to one of the four routes, a \<^verbatim>\<open>close\<close>,
  \<^verbatim>\<open>end\<close> or \<^verbatim>\<open>finish\<close> event of a session (each calls \<^verbatim>\<open>cleanupListener\<close>), an interval
  timer becoming due, and a connection breaking.
\<close>

datatype event =
    Post request
  | OpenStream bool nat nat
  | GetLast bool
  | GetLog bool jsval
  | Closed listener
  | TimerDue listener
  | Break nat

fun step :: "env \<Rightarrow> event \<Rightarrow> state \<Rightarrow> state" where
  "step env (Post req) s = snd (post env req s)"
| "step env (OpenStream user c t) s = snd (stream env user c t s)"
| "step env (GetLast user) s = snd (get_last user s)"
| "step env (GetLog user q) s = snd (get_log env user q s)"
| "step env (Closed l) s = cleanupListener (Some l) s"
| "step env (TimerDue l) s = timer_tick l s"
| "step env (Break c) s = s\<lparr>broken := insert c (broken s)\<rparr>"

definition run :: "env \<Rightarrow> event list \<Rightarrow> state \<Rightarrow> state" where
  "run env evs s = fold (step env) evs s"

text \<open>
  The ids given to the requests of a run of ingestions, in order: the id of the entry a
  request stored when it was answered with success, nothing for any other request.
\<close>

fun ingested_ids :: "env \<Rightarrow> request list \<Rightarrow> state \<Rightarrow> string list" where
  "ingested_ids env [] s = []"
| "ingested_ids env (req # reqs) s =
     (case post env req s of
        (Json code b, s1) \<Rightarrow>
          (if code = 200
           then (case lastCall s1 of None \<Rightarrow> [] | Some e \<Rightarrow> [ev_id e])
           else []) @ ingested_ids env reqs s1
      | (_, s1) \<Rightarrow> ingested_ids env reqs s1)"

declare ingested_ids.simps [simp del]

section \<open>Auxiliary notions for the statements\<close>

text \<open>The newest entry of a ring, if any.\<close>

definition ring_head :: "'a list \<Rightarrow> 'a option" where
  "ring_head h = (case h of [] \<Rightarrow> None | e # _ \<Rightarrow> Some e)"

text \<open>The relation between \<^verbatim>\<open>lastCall\<close> and \<^verbatim>\<open>callHistory\<close> that every handler keeps.\<close>

definition ring_inv :: "state \<Rightarrow> bool" where
  "ring_inv s = (lastCall s = ring_head (callHistory s))"

text \<open>
  Two states agree on everything a write to a connection or a cleanup leaves alone: the
  stored calls, the counter, the warning flag and the set of broken connections.
\<close>

definition same_store :: "state \<Rightarrow> state \<Rightarrow> bool" where
  "same_store s s' =
     (lastCall s' = lastCall s \<and> callHistory s' = callHistory s \<and> sequence s' = sequence s
      \<and> secretWarningLogged s' = secretWarningLogged s \<and> warnings s' = warnings s
      \<and> broken s' = broken s)"

text \<open>
  The state after the secret check of an accepted request: the first request of a process
  without a configured secret prints the warning and sets \<^verbatim>\<open>secretWarningLogged\<close>.
\<close>

definition after_secret_check :: "env \<Rightarrow> state \<Rightarrow> state" where
  "after_secret_check env s =
     (if \<not> secret_configured env \<and> \<not> secretWarningLogged s
      then s\<lparr>secretWarningLogged := True, warnings := warnings s + 1\<rparr>
      else s)"

text \<open>The entry the ingestion handler builds once every field has been converted.\<close>

definition build_entry ::
  "request \<Rightarrow> nat \<Rightarrow> phone \<Rightarrow> string option \<Rightarrow> string option \<Rightarrow> string \<Rightarrow> entry" where
  "build_entry req n ph extension source status =
     \<lparr>ev_id = string_of_nat n,
      ev_phone = (if display ph \<noteq> [] then display ph else digits ph),
      ev_digits = digits ph,
      ev_extension = extension,
      ev_source = source,
      ev_received_at = now req,
      ev_status = status,
      ev_note = string_field (body_note req),
      meta_callerName = string_field (body_name req),
      meta_personId = js_coalesce (body_person_id req) JNull\<rparr>"

text \<open>The timer handle an event schedules: the one \<^verbatim>\<open>setInterval\<close> returns to a stream request.\<close>

definition opened_timer :: "event \<Rightarrow> nat option" where
  "opened_timer ev = (case ev of OpenStream user c t \<Rightarrow> Some t | _ \<Rightarrow> None)"

text \<open>The state after a run of ingestion requests.\<close>

definition ingest_all :: "env \<Rightarrow> request list \<Rightarrow> state \<Rightarrow> state" where
  "ingest_all env reqs s = fold (\<lambda>req st. snd (post env req st)) reqs s"

text \<open>The entries of the response to a history read.\<close>

definition response_entries :: "outcome \<Rightarrow> log_entry list" where
  "response_entries out = (case out of Json code (EntriesBody es) \<Rightarrow> es | _ \<Rightarrow> [])"

text \<open>
  The limit the handler computes from the string form of the parameter: 100 when it does
  not start with a number or the number is zero, 1 for a negative number, 500 for a number
  above 500, the number itself otherwise.
\<close>

definition clamped_limit :: "string \<Rightarrow> nat" where
  "clamped_limit str =
     (case parseInt10 str of
        None \<Rightarrow> 100
      | Some v \<Rightarrow> if v = 0 then 100 else if v < 1 then 1 else if 500 < v then 500 else nat v)"

text \<open>What the directory lookup offers for an entry, \<^verbatim>\<open>null\<close> when it has nothing truthy.\<close>

definition looked_up_name :: "(string \<rightharpoonup> person) \<Rightarrow> entry \<Rightarrow> jsval" where
  "looked_up_name people e =
     (case lookup_person people e of
        None \<Rightarrow> JNull
      | Some p \<Rightarrow> if truthy (person_name p) then person_name p else JNull)"

definition looked_up_id :: "(string \<rightharpoonup> person) \<Rightarrow> entry \<Rightarrow> jsval" where
  "looked_up_id people e =
     (case lookup_person people e of
        None \<Rightarrow> JNull
      | Some p \<Rightarrow> if truthy (person_id p) then person_id p else JNull)"

section \<open>The normalizer and the limit as the specification words them\<close>

text \<open>
  Phone: strip all non-digit characters of the trimmed input to produce the digits,
  truncate them to 20 characters, and prefix the display form with \<^verbatim>\<open>+\<close> exactly when the
  trimmed input started with \<^verbatim>\<open>+\<close>.
\<close>

definition sanitizePhone_spec :: "string \<Rightarrow> phone" where
  "sanitizePhone_spec raw =
     (let str = js_trim raw;
          ds = take 20 (filter is_digit str)
      in \<lparr>display = (if startsWith_plus str then CHR ''+'' # ds else ds), digits = ds\<rparr>)"

text \<open>
  Status: trim and lowercase; one of the four labels is returned as it is, the aliases
  \<^verbatim>\<open>no_answer\<close> and \<^verbatim>\<open>noanswer\<close> give \<^verbatim>\<open>missed\<close>, anything else gives \<^verbatim>\<open>ringing\<close>.
\<close>

definition normalizeStatus_spec :: "string \<Rightarrow> string" where
  "normalizeStatus_spec raw =
     (let status = toLowerCase (js_trim raw)
      in if status \<in> {''ringing'', ''answered'', ''missed'', ''rejected''} then status
         else if status \<in> {''no_answer'', ''noanswer''} then ''missed''
         else ''ringing'')"

text \<open>
  The limit as the specification words it: 100 when no number is given, else the number clamped to
  \<open>1..MAX_HISTORY\<close>.
\<close>

definition limit_spec :: "string \<Rightarrow> nat" where
  "limit_spec str =
     (case parseInt10 str of
        None \<Rightarrow> 100
      | Some v \<Rightarrow> nat (max 1 (min v (int MAX_HISTORY))))"

section \<open>Sample surroundings, requests and states\<close>

text \<open>
  A process without a configured secret, and one with a secret; a directory lookup that
  always fails, and one that knows two numbers.
\<close>

definition open_env :: env where
  "open_env =
     \<lparr>PBX_WEBHOOK_SECRET = None, JSON_stringify = (\<lambda>e. ''{}''), db_query = (\<lambda>ds. Inr [])\<rparr>"

definition secret_env :: env where
  "secret_env =
     \<lparr>PBX_WEBHOOK_SECRET = Some ''s3cret'', JSON_stringify = (\<lambda>e. ''{}''),
      db_query = (\<lambda>ds. Inr [])\<rparr>"

definition failing_db_env :: env where
  "failing_db_env = open_env\<lparr>db_query := (\<lambda>ds. Inl DbError)\<rparr>"

definition directory_env :: env where
  "directory_env =
     open_env\<lparr>db_query := (\<lambda>ds. Inr
       [Some \<lparr>row_id = JNum ''7'', row_name = JStr ''Ion'', row_phone = JStr ''0722000000''\<rparr>,
        Some \<lparr>row_id = JNum ''8'', row_name = JStr ''Ana M.'', row_phone = JStr ''0712345678''\<rparr>])\<rparr>"

text \<open>
  Requests: a call from a number, a call that carries a caller name, and a call whose
  status is an object with a property \<^verbatim>\<open>toString\<close>, as a JSON body can carry it.
\<close>

definition call_request :: "string \<Rightarrow> request" where
  "call_request p = empty_request\<lparr>body_phone := JStr p\<rparr>"

definition named_call_request :: request where
  "named_call_request = (call_request ''0712345678'')\<lparr>body_name := JStr '' Ana ''\<rparr>"

definition odd_status :: jsval where
  "odd_status = JObj [(''toString'', JNum ''1'')]"

definition odd_status_request :: request where
  "odd_status_request = (call_request ''0712345678'')\<lparr>body_status := odd_status\<rparr>"

text \<open>
  States: two subscribers, the connection of one of them broken; and a process that has
  ingested two calls.
\<close>

definition sample_call :: entry where
  "sample_call =
     build_entry (call_request ''0712345678'') 1
       \<lparr>display = ''0712345678'', digits = ''0712345678''\<rparr> None None ''ringing''"

definition live_listener :: listener where
  "live_listener = \<lparr>res = 1, heartbeat = Some 10\<rparr>"

definition dead_listener :: listener where
  "dead_listener = \<lparr>res = 2, heartbeat = Some 20\<rparr>"

definition fanout_state :: state where
  "fanout_state =
     init_state\<lparr>listeners := [dead_listener, live_listener], timers := {10, 20},
                broken := {2}\<rparr>"

definition two_calls_state :: state where
  "two_calls_state =
     ingest_all open_env [named_call_request, call_request ''0722000000''] init_state"

section \<open>Properties of the history ring\<close>

lemma storeInHistory_take:
  "length h \<le> MAX_HISTORY \<Longrightarrow> storeInHistory e h = take MAX_HISTORY (e # h)"
  by (cases "length h = MAX_HISTORY")
     (simp_all add: storeInHistory_def MAX_HISTORY_def butlast_conv_take)

lemma fold_storeInHistory:
  "length h \<le> MAX_HISTORY \<Longrightarrow> fold storeInHistory es h = take MAX_HISTORY (rev es @ h)"
proof (induction es arbitrary: h)
  case Nil
  then show ?case by simp
next
  case (Cons e es)
  have len: "length (storeInHistory e h) \<le> MAX_HISTORY"
    using Cons.prems by (simp add: storeInHistory_take)
  have "fold storeInHistory (e # es) h = take MAX_HISTORY (rev es @ take MAX_HISTORY (e # h))"
    using Cons.IH [OF len] Cons.prems by (simp add: storeInHistory_take)
  also have "\<dots> = take MAX_HISTORY (rev es @ e # h)"
    by (simp add: min_def)
  finally show ?case by simp
qed

text \<open>
  C2. Starting from a ring \<open>h\<close> within capacity (the empty ring of a fresh process is one),
  after any sequence \<open>es\<close> of insertions the ring holds at most \<open>MAX_HISTORY = 500\<close>
  entries: the newest first, cut at the capacity. One insertion prepends the entry and, on a
  full ring, drops exactly the last (oldest) one. After \<open>MAX_HISTORY + k\<close> insertions the
  ring is the last \<open>MAX_HISTORY\<close> inserted entries, newest first.
\<close>

theorem history_ring_bounded_recent:
  "length h \<le> MAX_HISTORY \<longrightarrow>
     length (fold storeInHistory es h) \<le> MAX_HISTORY
     \<and> fold storeInHistory es h = take MAX_HISTORY (rev es @ h)
     \<and> storeInHistory e h = (if length h < MAX_HISTORY then e # h else e # butlast h)
     \<and> (length es = MAX_HISTORY + k \<longrightarrow> fold storeInHistory es h = rev (drop k es))"
proof (intro impI conjI)
  assume h: "length h \<le> MAX_HISTORY"
  show eq: "fold storeInHistory es h = take MAX_HISTORY (rev es @ h)"
    by (rule fold_storeInHistory [OF h])
  show "length (fold storeInHistory es h) \<le> MAX_HISTORY"
    by (simp add: eq)
  show "storeInHistory e h = (if length h < MAX_HISTORY then e # h else e # butlast h)"
    using h by (cases h) (auto simp: storeInHistory_def MAX_HISTORY_def)
  assume k: "length es = MAX_HISTORY + k"
  have "take MAX_HISTORY (rev es @ h) = take MAX_HISTORY (rev es)"
    using k by simp
  also have "\<dots> = rev (drop k es)"
    using k by (simp add: take_rev)
  finally show "fold storeInHistory es h = rev (drop k es)"
    using eq by simp
qed

theorem history_ring_witness:
  "length ([] :: nat list) \<le> MAX_HISTORY
   \<and> length [0 ..< 502] = MAX_HISTORY + 2
   \<and> length (fold storeInHistory [0 ..< 502] []) \<le> MAX_HISTORY
   \<and> fold storeInHistory [0 ..< 502] [] = rev (drop 2 [0 ..< 502])"
proof -
  have a: "length ([] :: nat list) \<le> MAX_HISTORY"
    by simp
  have b: "length [0 ..< 502] = MAX_HISTORY + 2"
    by (simp add: MAX_HISTORY_def)
  from history_ring_bounded_recent [of "[]" "[0 ..< 502]" 7 2] a b
  have "length (fold storeInHistory [0 ..< 502] []) \<le> MAX_HISTORY
        \<and> fold storeInHistory [0 ..< 502] [] = rev (drop 2 [0 ..< 502])"
    by blast
  with a b show ?thesis
    by blast
qed

section \<open>What a write, a cleanup and a broadcast change\<close>

lemma same_store_refl: "same_store s s"
  by (simp add: same_store_def)

lemma same_store_trans: "same_store a b \<Longrightarrow> same_store b c \<Longrightarrow> same_store a c"
  by (simp add: same_store_def)

lemma res_write_cases:
  "res_write c f s =
     (if c \<in> broken s then Inl WriteError
      else Inr (s\<lparr>wire := (wire s)(c := wire s c @ [f])\<rparr>))"
  by (simp add: res_write_def)

lemma same_store_res_write: "res_write c f s = Inr s' \<Longrightarrow> same_store s s'"
  by (auto simp: res_write_def same_store_def split: if_splits)

lemma same_store_cleanup: "same_store s (cleanupListener lo s)"
  by (simp add: cleanupListener_def same_store_def Let_def split: option.splits)

lemma same_store_broadcast_loop: "same_store s (broadcast_loop p ls s)"
proof (induction ls arbitrary: s)
  case Nil
  show ?case by (simp add: same_store_refl)
next
  case (Cons l ls)
  have "same_store s (case res_write (res l) p s of Inr s1 \<Rightarrow> s1
                      | Inl err \<Rightarrow> cleanupListener (Some l) s)"
    by (auto split: sum.splits intro: same_store_res_write same_store_cleanup)
  then show ?case
    using Cons.IH same_store_trans by fastforce
qed

lemma broken_broadcast_loop: "broken (broadcast_loop p ls s) = broken s"
  using same_store_broadcast_loop [of s p ls] by (simp add: same_store_def)

lemma listeners_broadcast_loop:
  "listeners (broadcast_loop p ls s) =
     filter (\<lambda>l. \<not> (l \<in> set ls \<and> res l \<in> broken s)) (listeners s)"
proof (induction ls arbitrary: s)
  case Nil
  show ?case by simp
next
  case (Cons l ls)
  show ?case
  proof (cases "res l \<in> broken s")
    case True
    then show ?thesis
      by (auto simp: Cons.IH res_write_cases cleanupListener_def set_delete_def Let_def
          removeAll_filter_not_eq filter_filter split: option.splits intro!: filter_cong)
  next
    case False
    then show ?thesis
      by (auto simp: Cons.IH res_write_cases intro!: filter_cong)
  qed
qed

lemma wire_broadcast_loop:
  "wire (broadcast_loop p ls s) c =
     (if c \<in> broken s then wire s c
      else wire s c @ replicate (length (filter (\<lambda>l. res l = c) ls)) p)"
proof (induction ls arbitrary: s)
  case Nil
  show ?case by simp
next
  case (Cons l ls)
  show ?case
  proof (cases "res l \<in> broken s")
    case True
    then show ?thesis
      by (auto simp: Cons.IH res_write_cases cleanupListener_def Let_def split: option.splits)
  next
    case False
    then show ?thesis
      by (auto simp: Cons.IH res_write_cases replicate_app_Cons_same)
  qed
qed

lemma timers_broadcast_loop:
  "timers (broadcast_loop p ls s) =
     timers s - {t. \<exists>l \<in> set ls. res l \<in> broken s \<and> heartbeat l = Some t}"
proof (induction ls arbitrary: s)
  case Nil
  show ?case by simp
next
  case (Cons l ls)
  show ?case
  proof (cases "res l \<in> broken s")
    case True
    then show ?thesis
      by (auto simp: Cons.IH res_write_cases cleanupListener_def Let_def split: option.splits)
  next
    case False
    then show ?thesis
      by (auto simp: Cons.IH res_write_cases)
  qed
qed

section \<open>The cases of the ingestion handler\<close>

lemma post_rejected:
  "secret_rejected env req \<Longrightarrow> post env req s = (Json 401 (ErrorBody ''invalid secret''), s)"
  by (simp add: post_def)

lemma post_phone_threw:
  "\<not> secret_rejected env req \<Longrightarrow> sanitizePhone (raw_phone req) = Inl e \<Longrightarrow>
   post env req s = (Threw e, after_secret_check env s)"
  by (simp add: post_def after_secret_check_def)

lemma post_phone_missing:
  "\<not> secret_rejected env req \<Longrightarrow> sanitizePhone (raw_phone req) = Inr ph \<Longrightarrow>
   display ph = [] \<and> digits ph = [] \<Longrightarrow>
   post env req s = (Json 400 (ErrorBody ''phone missing''), after_secret_check env s)"
  by (simp add: post_def after_secret_check_def)

lemma post_field_threw:
  "\<not> secret_rejected env req \<Longrightarrow> sanitizePhone (raw_phone req) = Inr ph \<Longrightarrow>
   \<not> (display ph = [] \<and> digits ph = []) \<Longrightarrow>
   trimmed_field (body_extension req) = Inl e \<or>
   (trimmed_field (body_extension req) = Inr x \<and> trimmed_field (body_source req) = Inl e) \<Longrightarrow>
   post env req s = (Threw e, after_secret_check env s)"
  by (auto simp: post_def after_secret_check_def)

lemma post_status_threw:
  "\<not> secret_rejected env req \<Longrightarrow> sanitizePhone (raw_phone req) = Inr ph \<Longrightarrow>
   \<not> (display ph = [] \<and> digits ph = []) \<Longrightarrow>
   trimmed_field (body_extension req) = Inr x \<Longrightarrow>
   trimmed_field (body_source req) = Inr y \<Longrightarrow>
   normalizeStatus (body_status req) = Inl e \<Longrightarrow>
   post env req s =
     (Threw e, (after_secret_check env s)\<lparr>sequence := sequence s + 1\<rparr>)"
  by (auto simp: post_def after_secret_check_def Let_def)

lemma post_accepted:
  "\<not> secret_rejected env req \<Longrightarrow> sanitizePhone (raw_phone req) = Inr ph \<Longrightarrow>
   \<not> (display ph = [] \<and> digits ph = []) \<Longrightarrow>
   trimmed_field (body_extension req) = Inr x \<Longrightarrow>
   trimmed_field (body_source req) = Inr y \<Longrightarrow>
   normalizeStatus (body_status req) = Inr st \<Longrightarrow>
   post env req s =
     (Json 200 SuccessBody,
      broadcast env (build_entry req (sequence s + 1) ph x y st)
        ((after_secret_check env s)
           \<lparr>sequence := sequence s + 1,
            callHistory := storeInHistory (build_entry req (sequence s + 1) ph x y st)
                             (callHistory s),
            lastCall := Some (build_entry req (sequence s + 1) ph x y st)\<rparr>))"
  by (auto simp: post_def after_secret_check_def Let_def build_entry_def)

section \<open>lastCall and the history ring\<close>

lemma same_store_after_secret_check:
  "lastCall (after_secret_check env s) = lastCall s
   \<and> callHistory (after_secret_check env s) = callHistory s
   \<and> sequence (after_secret_check env s) = sequence s
   \<and> listeners (after_secret_check env s) = listeners s
   \<and> timers (after_secret_check env s) = timers s
   \<and> broken (after_secret_check env s) = broken s
   \<and> wire (after_secret_check env s) = wire s"
  by (simp add: after_secret_check_def)

lemma ring_head_store: "ring_head (storeInHistory e h) = Some e"
  by (simp add: storeInHistory_def ring_head_def MAX_HISTORY_def Let_def butlast.simps
      split: list.splits)

lemma post_outcomes:
  "post env req s = (Json 401 (ErrorBody ''invalid secret''), s)
   \<or> (\<exists>e. post env req s = (Threw e, after_secret_check env s))
   \<or> post env req s = (Json 400 (ErrorBody ''phone missing''), after_secret_check env s)
   \<or> (\<exists>e. post env req s = (Threw e, (after_secret_check env s)\<lparr>sequence := sequence s + 1\<rparr>)
          \<and> normalizeStatus (body_status req) = Inl e)
   \<or> (\<exists>entry. post env req s =
         (Json 200 SuccessBody,
          broadcast env entry
            ((after_secret_check env s)
               \<lparr>sequence := sequence s + 1,
                callHistory := storeInHistory entry (callHistory s),
                lastCall := Some entry\<rparr>))
         \<and> ev_id entry = string_of_nat (sequence s + 1))"
proof (cases "secret_rejected env req")
  case True
  then show ?thesis by (simp add: post_rejected)
next
  case nr: False
  show ?thesis
  proof (cases "sanitizePhone (raw_phone req)")
    case (Inl e)
    then show ?thesis using nr by (simp add: post_phone_threw)
  next
    case (Inr ph)
    note ph = this
    show ?thesis
    proof (cases "display ph = [] \<and> digits ph = []")
      case True
      then show ?thesis using nr ph by (simp add: post_phone_missing)
    next
      case ne: False
      show ?thesis
      proof (cases "trimmed_field (body_extension req)")
        case (Inl e)
        then show ?thesis using post_field_threw [OF nr ph ne, of e] by simp
      next
        case (Inr x)
        note x = this
        show ?thesis
        proof (cases "trimmed_field (body_source req)")
          case (Inl e)
          then show ?thesis using post_field_threw [OF nr ph ne, of e x] x by simp
        next
          case (Inr y)
          note y = this
          show ?thesis
          proof (cases "normalizeStatus (body_status req)")
            case (Inl e)
            then show ?thesis using post_status_threw [OF nr ph ne x y] by simp
          next
            case (Inr st)
            have "ev_id (build_entry req (sequence s + 1) ph x y st) = string_of_nat (sequence s + 1)"
              by (simp add: build_entry_def)
            then show ?thesis using post_accepted [OF nr ph ne x y Inr] by blast
          qed
        qed
      qed
    qed
  qed
qed

lemma broadcast_same_store: "same_store s (broadcast env e s)"
  by (simp add: broadcast_def same_store_broadcast_loop)

lemma ring_inv_same_store: "same_store s s' \<Longrightarrow> ring_inv s \<Longrightarrow> ring_inv s'"
  by (simp add: same_store_def ring_inv_def)

lemma ring_inv_post: "ring_inv s \<Longrightarrow> ring_inv (snd (post env req s))"
  using post_outcomes [of env req s] broadcast_same_store
  apply (elim disjE exE conjE)
  apply (auto simp: ring_inv_def same_store_after_secret_check ring_head_store same_store_def)
  done

lemma stream_same_store: "same_store s (snd (stream env user c t s))"
  by (auto simp: stream_def res_write_def same_store_def Let_def split: option.splits)

lemma timer_tick_same_store: "same_store s (timer_tick l s)"
  by (auto simp: timer_tick_def heartbeat_fire_def same_store_cleanup
      split: option.splits sum.splits intro: same_store_res_write same_store_refl)

lemma ring_inv_step: "ring_inv s \<Longrightarrow> ring_inv (step env ev s)"
proof (cases ev)
  case (Post req)
  assume "ring_inv s"
  then show ?thesis using Post by (simp add: ring_inv_post)
next
  case (OpenStream u c t)
  assume "ring_inv s"
  then show ?thesis using OpenStream stream_same_store ring_inv_same_store by simp blast
next
  case (GetLast u)
  assume "ring_inv s"
  then show ?thesis using GetLast by (simp add: get_last_def)
next
  case (GetLog u q)
  assume "ring_inv s"
  then show ?thesis using GetLog by (simp add: get_log_def Let_def split: sum.splits)
next
  case (Closed l)
  assume "ring_inv s"
  then show ?thesis using Closed same_store_cleanup ring_inv_same_store by simp blast
next
  case (TimerDue l)
  assume "ring_inv s"
  then show ?thesis using TimerDue timer_tick_same_store ring_inv_same_store by simp blast
next
  case (Break c)
  assume "ring_inv s"
  then show ?thesis using Break by (simp add: ring_inv_def)
qed

lemma ring_inv_run: "ring_inv s \<Longrightarrow> ring_inv (run env evs s)"
  unfolding run_def by (induction evs arbitrary: s) (simp_all add: ring_inv_step)

lemma ring_inv_init: "ring_inv init_state"
  by (simp add: ring_inv_def init_state_def ring_head_def)

text \<open>
  C10. In every state the process reaches from its start, by any sequence of requests,
  session closes, timer ticks and connection failures, \<^verbatim>\<open>lastCall\<close> is the newest entry of
  the history ring: it is \<^verbatim>\<open>null\<close> exactly when the ring is empty, and the first entry of
  the ring otherwise. An ingestion answered with success has stored one and the same entry
  as \<^verbatim>\<open>lastCall\<close> and at the front of the ring.
\<close>

theorem lastCall_is_newest_history_entry:
  "lastCall (run env evs init_state) = ring_head (callHistory (run env evs init_state))
   \<and> ((lastCall (run env evs init_state) = None) = (callHistory (run env evs init_state) = []))
   \<and> (fst (post env req s) = Json 200 SuccessBody \<longrightarrow>
        (\<exists>entry rest. lastCall (snd (post env req s)) = Some entry
                     \<and> callHistory (snd (post env req s)) = entry # rest
                     \<and> ev_id entry = string_of_nat (sequence s + 1)))"
proof (intro conjI impI)
  have inv: "ring_inv (run env evs init_state)"
    by (rule ring_inv_run [OF ring_inv_init])
  then show "lastCall (run env evs init_state) = ring_head (callHistory (run env evs init_state))"
    by (simp add: ring_inv_def)
  from inv show "(lastCall (run env evs init_state) = None) = (callHistory (run env evs init_state) = [])"
    by (simp add: ring_inv_def ring_head_def split: list.splits)
next
  assume ok: "fst (post env req s) = Json 200 SuccessBody"
  from post_outcomes [of env req s] ok obtain entry where
    p: "post env req s =
         (Json 200 SuccessBody,
          broadcast env entry
            ((after_secret_check env s)
               \<lparr>sequence := sequence s + 1,
                callHistory := storeInHistory entry (callHistory s),
                lastCall := Some entry\<rparr>))"
    and i: "ev_id entry = string_of_nat (sequence s + 1)"
    by auto
  have "ring_head (storeInHistory entry (callHistory s)) = Some entry"
    by (rule ring_head_store)
  then obtain rest where "storeInHistory entry (callHistory s) = entry # rest"
    by (auto simp: ring_head_def split: list.splits)
  then show "\<exists>entry rest. lastCall (snd (post env req s)) = Some entry
                     \<and> callHistory (snd (post env req s)) = entry # rest
                     \<and> ev_id entry = string_of_nat (sequence s + 1)"
    using p i broadcast_same_store [of _ env entry]
    by (auto simp: same_store_def)
qed

theorem lastCall_is_newest_witness:
  "fst (post open_env (call_request ''0712 345 678'') init_state) = Json 200 SuccessBody
   \<and> (\<exists>entry rest.
         lastCall (snd (post open_env (call_request ''0712 345 678'') init_state)) = Some entry
         \<and> callHistory (snd (post open_env (call_request ''0712 345 678'') init_state))
             = entry # rest
         \<and> ev_id entry = string_of_nat (sequence init_state + 1))"
proof -
  have ok: "fst (post open_env (call_request ''0712 345 678'') init_state) = Json 200 SuccessBody"
    by code_simp
  with lastCall_is_newest_history_entry
         [of open_env "[]" "call_request ''0712 345 678''" init_state]
  show ?thesis
    by blast
qed

section \<open>Fan-out with a failing subscriber\<close>

lemma filter_res_distinct:
  "distinct (map res ls) \<Longrightarrow> T \<in> set ls \<Longrightarrow> filter (\<lambda>l. res l = res T) ls = [T]"
proof (induction ls)
  case Nil
  then show ?case by simp
next
  case (Cons a ls)
  then show ?case
    by (auto simp: filter_empty_conv image_iff)
qed

lemma post_outcome_state_free: "fst (post env req s) = fst (post env req s')"
  using post_outcomes [of env req s] post_outcomes [of env req s']
  by (cases "secret_rejected env req"; cases "sanitizePhone (raw_phone req)";
      cases "trimmed_field (body_extension req)"; cases "trimmed_field (body_source req)";
      cases "normalizeStatus (body_status req)")
     (auto simp: post_def Let_def)

text \<open>
  C3. Let \<open>S\<close> be a registered subscriber whose connection refuses the write. Then
  \<^verbatim>\<open>broadcast\<close> unregisters \<open>S\<close> and cancels its timer, and every registered subscriber \<open>T\<close>
  whose connection accepts the write stays registered and has the frame of the event
  appended to what its connection had received, once per listener registered on that
  connection (exactly once when every session has a connection of its own). The failure
  changes nothing else: the stored calls, the counter and the set of broken connections are
  as before, and the answer of the ingestion handler, the publisher, does not depend on
  which connections are broken.
\<close>

theorem broadcast_isolates_failed_subscriber:
  "S \<in> set (listeners s) \<and> res S \<in> broken s \<longrightarrow>
     S \<notin> set (listeners (broadcast env e s))
     \<and> (\<forall>t. heartbeat S = Some t \<longrightarrow> t \<notin> timers (broadcast env e s))
     \<and> (\<forall>T \<in> set (listeners s). res T \<notin> broken s \<longrightarrow>
           T \<in> set (listeners (broadcast env e s))
           \<and> wire (broadcast env e s) (res T) =
               wire s (res T) @
                 replicate (length (filter (\<lambda>l. res l = res T) (listeners s))) (payload_of env e)
           \<and> 0 < length (filter (\<lambda>l. res l = res T) (listeners s))
           \<and> (distinct (map res (listeners s)) \<longrightarrow>
                wire (broadcast env e s) (res T) = wire s (res T) @ [payload_of env e]))
     \<and> same_store s (broadcast env e s)
     \<and> fst (post env req (s\<lparr>broken := B\<rparr>)) = fst (post env req s)"
proof (intro impI conjI allI ballI; (elim conjE)?)
  assume S: "S \<in> set (listeners s)" and f: "res S \<in> broken s"
  show "S \<notin> set (listeners (broadcast env e s))"
    using S f by (simp add: broadcast_def listeners_broadcast_loop)
  show "same_store s (broadcast env e s)"
    by (rule broadcast_same_store)
  show "fst (post env req (s\<lparr>broken := B\<rparr>)) = fst (post env req s)"
    by (rule post_outcome_state_free)
  {
    fix t assume "heartbeat S = Some t"
    then show "t \<notin> timers (broadcast env e s)"
      using S f by (auto simp: broadcast_def timers_broadcast_loop)
  }
  {
    fix T assume T: "T \<in> set (listeners s)" and ok: "res T \<notin> broken s"
    show "T \<in> set (listeners (broadcast env e s))"
      using T ok by (simp add: broadcast_def listeners_broadcast_loop)
    show w: "wire (broadcast env e s) (res T) =
               wire s (res T) @
                 replicate (length (filter (\<lambda>l. res l = res T) (listeners s))) (payload_of env e)"
      using ok by (simp add: broadcast_def wire_broadcast_loop)
    show "0 < length (filter (\<lambda>l. res l = res T) (listeners s))"
      using T by (auto simp: filter_empty_conv)
    {
      assume "distinct (map res (listeners s))"
      then show "wire (broadcast env e s) (res T) = wire s (res T) @ [payload_of env e]"
        using w T by (simp add: filter_res_distinct)
    }
  }
qed

theorem broadcast_isolates_witness:
  "dead_listener \<in> set (listeners fanout_state) \<and> res dead_listener \<in> broken fanout_state
   \<and> live_listener \<in> set (listeners fanout_state) \<and> res live_listener \<notin> broken fanout_state
   \<and> distinct (map res (listeners fanout_state))
   \<and> dead_listener \<notin> set (listeners (broadcast open_env sample_call fanout_state))
   \<and> live_listener \<in> set (listeners (broadcast open_env sample_call fanout_state))
   \<and> wire (broadcast open_env sample_call fanout_state) (res live_listener) =
       wire fanout_state (res live_listener) @ [payload_of open_env sample_call]"
proof -
  have h: "dead_listener \<in> set (listeners fanout_state) \<and> res dead_listener \<in> broken fanout_state"
    by (simp add: fanout_state_def dead_listener_def)
  have m: "live_listener \<in> set (listeners fanout_state)"
    by (simp add: fanout_state_def)
  have a: "res live_listener \<notin> broken fanout_state"
    by (simp add: fanout_state_def live_listener_def)
  have d: "distinct (map res (listeners fanout_state))"
    by (simp add: fanout_state_def live_listener_def dead_listener_def)
  from broadcast_isolates_failed_subscriber
         [of dead_listener fanout_state open_env sample_call empty_request "{}"] h
  have c: "dead_listener \<notin> set (listeners (broadcast open_env sample_call fanout_state))"
    and r: "\<forall>T \<in> set (listeners fanout_state). res T \<notin> broken fanout_state \<longrightarrow>
           T \<in> set (listeners (broadcast open_env sample_call fanout_state))
           \<and> wire (broadcast open_env sample_call fanout_state) (res T) =
               wire fanout_state (res T) @
                 replicate (length (filter (\<lambda>l. res l = res T) (listeners fanout_state)))
                   (payload_of open_env sample_call)
           \<and> 0 < length (filter (\<lambda>l. res l = res T) (listeners fanout_state))
           \<and> (distinct (map res (listeners fanout_state)) \<longrightarrow>
                wire (broadcast open_env sample_call fanout_state) (res T) =
                  wire fanout_state (res T) @ [payload_of open_env sample_call])"
    by blast+
  from r m a d
  have "live_listener \<in> set (listeners (broadcast open_env sample_call fanout_state))
        \<and> wire (broadcast open_env sample_call fanout_state) (res live_listener) =
            wire fanout_state (res live_listener) @ [payload_of open_env sample_call]"
    by blast
  with h m a d c show ?thesis
    by blast
qed

section \<open>Session cleanup\<close>

lemma cleanup_twice: "cleanupListener lo (cleanupListener lo s) = cleanupListener lo s"
  by (cases lo) (auto simp: cleanupListener_def set_delete_def Let_def split: option.splits)

lemma timers_cleanup:
  "heartbeat l = Some t \<Longrightarrow> t \<notin> timers (cleanupListener (Some l) s)"
  by (simp add: cleanupListener_def Let_def)

lemma tick_after_cleanup: "timer_tick l (cleanupListener (Some l) s) = cleanupListener (Some l) s"
  by (cases "heartbeat l") (simp_all add: timer_tick_def timers_cleanup)

lemma timers_cleanup_subset: "timers (cleanupListener lo s) \<subseteq> timers s"
  by (auto simp: cleanupListener_def Let_def split: option.splits)

lemma timers_res_write: "res_write c f s = Inr s' \<Longrightarrow> timers s' = timers s"
  by (auto simp: res_write_def split: if_splits)

lemma timers_after_secret_check: "timers (after_secret_check env s) = timers s"
  by (simp add: after_secret_check_def)

lemma timers_post_subset: "timers (snd (post env req s)) \<subseteq> timers s"
  using post_outcomes [of env req s]
  by (elim disjE exE conjE)
     (auto simp: broadcast_def timers_broadcast_loop timers_after_secret_check)

lemma timers_tick_subset: "timers (timer_tick l s) \<subseteq> timers s"
  using timers_cleanup_subset [of "Some l" s]
  by (auto simp: timer_tick_def heartbeat_fire_def res_write_def split: option.splits)

lemma timers_stream_subset: "timers (snd (stream env u c t s)) \<subseteq> insert t (timers s)"
  by (auto simp: stream_def res_write_def Let_def split: option.splits)

lemma timer_stays_cancelled_step:
  "t \<notin> timers s \<Longrightarrow> opened_timer ev \<noteq> Some t \<Longrightarrow> t \<notin> timers (step env ev s)"
proof (cases ev)
  case (Post req)
  assume "t \<notin> timers s"
  then show ?thesis using Post timers_post_subset [of env req s] by auto
next
  case (OpenStream u c t')
  assume "t \<notin> timers s" "opened_timer ev \<noteq> Some t"
  then show ?thesis using OpenStream timers_stream_subset [of env u c t' s]
    by (auto simp: opened_timer_def)
next
  case (GetLast u)
  assume "t \<notin> timers s"
  then show ?thesis using GetLast by (simp add: get_last_def)
next
  case (GetLog u q)
  assume "t \<notin> timers s"
  then show ?thesis using GetLog by (simp add: get_log_def Let_def split: sum.splits)
next
  case (Closed l)
  assume "t \<notin> timers s"
  then show ?thesis using Closed timers_cleanup_subset [of "Some l" s] by auto
next
  case (TimerDue l)
  assume "t \<notin> timers s"
  then show ?thesis using TimerDue timers_tick_subset [of l s] by auto
next
  case (Break c)
  assume "t \<notin> timers s"
  then show ?thesis using Break by simp
qed

lemma timer_stays_cancelled_run:
  "t \<notin> timers s \<Longrightarrow> \<forall>ev \<in> set evs. opened_timer ev \<noteq> Some t \<Longrightarrow>
   t \<notin> timers (run env evs s)"
  unfolding run_def
  by (induction evs arbitrary: s) (simp_all add: timer_stays_cancelled_step)

text \<open>
  C4. \<^verbatim>\<open>cleanupListener\<close> is idempotent: a second call on the same session (or on no
  session) returns the state the first call left, and the function is total, so no call
  raises. After a cleanup the session is not in the subscriber set and its interval timer is
  not scheduled: a tick of that timer writes nothing and changes nothing, right after the
  cleanup and after any later run of events in which \<^verbatim>\<open>setInterval\<close> does not hand out the
  same handle again.
\<close>

theorem cleanup_idempotent_and_cancels_heartbeat:
  "cleanupListener lo (cleanupListener lo s) = cleanupListener lo s
   \<and> l \<notin> set (listeners (cleanupListener (Some l) s))
   \<and> timer_tick l (cleanupListener (Some l) s) = cleanupListener (Some l) s
   \<and> wire (timer_tick l (cleanupListener (Some l) s)) = wire s
   \<and> (heartbeat l = Some t \<and> (\<forall>ev \<in> set evs. opened_timer ev \<noteq> Some t) \<longrightarrow>
        t \<notin> timers (run env evs (cleanupListener (Some l) s))
        \<and> timer_tick l (run env evs (cleanupListener (Some l) s))
            = run env evs (cleanupListener (Some l) s))"
proof (intro conjI impI; (elim conjE)?)
  show "cleanupListener lo (cleanupListener lo s) = cleanupListener lo s"
    by (rule cleanup_twice)
  show "l \<notin> set (listeners (cleanupListener (Some l) s))"
    by (simp add: cleanupListener_def set_delete_def Let_def split: option.splits)
  show "timer_tick l (cleanupListener (Some l) s) = cleanupListener (Some l) s"
    by (rule tick_after_cleanup)
  show "wire (timer_tick l (cleanupListener (Some l) s)) = wire s"
    unfolding tick_after_cleanup
    by (simp add: cleanupListener_def Let_def split: option.splits)
  assume t: "heartbeat l = Some t" and fresh: "\<forall>ev \<in> set evs. opened_timer ev \<noteq> Some t"
  show gone: "t \<notin> timers (run env evs (cleanupListener (Some l) s))"
    by (rule timer_stays_cancelled_run [OF timers_cleanup [OF t] fresh])
  show "timer_tick l (run env evs (cleanupListener (Some l) s))
            = run env evs (cleanupListener (Some l) s)"
    using t gone by (simp add: timer_tick_def)
qed

theorem cleanup_idempotent_witness:
  "heartbeat dead_listener = Some 20
   \<and> opened_timer (TimerDue dead_listener) \<noteq> Some 20
   \<and> opened_timer (Post (call_request ''0712345678'')) \<noteq> Some 20
   \<and> opened_timer (OpenStream True 3 30) \<noteq> Some 20
   \<and> 20 \<notin> timers (run open_env
                      [TimerDue dead_listener, Post (call_request ''0712345678''), OpenStream True 3 30]
                      (cleanupListener (Some dead_listener) fanout_state))
   \<and> cleanupListener (Some dead_listener) (cleanupListener (Some dead_listener) fanout_state)
       = cleanupListener (Some dead_listener) fanout_state"
proof -
  have h: "heartbeat dead_listener = Some 20"
    by (simp add: dead_listener_def)
  have f: "\<forall>ev \<in> set [TimerDue dead_listener, Post (call_request ''0712345678''), OpenStream True 3 30].
         opened_timer ev \<noteq> Some 20"
    by (simp add: opened_timer_def)
  from cleanup_idempotent_and_cancels_heartbeat
         [of "Some dead_listener" fanout_state dead_listener 20
             "[TimerDue dead_listener, Post (call_request ''0712345678''), OpenStream True 3 30]"
             open_env] h f
  have "20 \<notin> timers (run open_env
                      [TimerDue dead_listener, Post (call_request ''0712345678''), OpenStream True 3 30]
                      (cleanupListener (Some dead_listener) fanout_state))
   \<and> cleanupListener (Some dead_listener) (cleanupListener (Some dead_listener) fanout_state)
       = cleanupListener (Some dead_listener) fanout_state"
    by blast
  with h f show ?thesis
    by simp
qed

section \<open>Rejected ingestion requests\<close>

lemma sanitizePhone_empty_string: "sanitizePhone (JStr []) = Inr \<lparr>display = [], digits = []\<rparr>"
  by (simp add: sanitizePhone_def js_trim_def)

lemma raw_phone_absent:
  "nullish (body_phone req) \<Longrightarrow> nullish (body_caller req) \<Longrightarrow> nullish (body_number req) \<Longrightarrow>
   raw_phone req = JStr []"
  by (simp add: raw_phone_def js_coalesce_def)

lemma raw_phone_first:
  "\<not> nullish (body_phone req) \<Longrightarrow> raw_phone req = body_phone req"
  by (simp add: raw_phone_def js_coalesce_def)

text \<open>
  C7. The handler checks the secret first. A request that fails the configured-secret check
  (a non-empty secret is configured and the one provided by header, body or query is
  missing or different) is answered 401 and leaves the whole state as it was. A request
  that passes the check and whose phone field is empty or absent (\<^verbatim>\<open>phone\<close>, \<^verbatim>\<open>caller\<close> and
  \<^verbatim>\<open>number\<close> all absent or null, or the first of them that is present the empty string) is
  answered 400, and the history ring, \<^verbatim>\<open>lastCall\<close>, the sequence counter, the subscriber
  set and the connections are exactly as before the request.
\<close>

theorem error_responses_change_nothing:
  "(secret_rejected env req \<longrightarrow>
      post env req s = (Json 401 (ErrorBody ''invalid secret''), s))
   \<and> (\<not> secret_rejected env req \<and> raw_phone req = JStr [] \<longrightarrow>
        fst (post env req s) = Json 400 (ErrorBody ''phone missing'')
        \<and> callHistory (snd (post env req s)) = callHistory s
        \<and> lastCall (snd (post env req s)) = lastCall s
        \<and> sequence (snd (post env req s)) = sequence s
        \<and> listeners (snd (post env req s)) = listeners s
        \<and> wire (snd (post env req s)) = wire s)
   \<and> (nullish (body_phone req) \<and> nullish (body_caller req) \<and> nullish (body_number req)
        \<longrightarrow> raw_phone req = JStr [])
   \<and> (body_phone req = JStr [] \<longrightarrow> raw_phone req = JStr [])"
proof (intro conjI impI; (elim conjE)?)
  assume "secret_rejected env req"
  then show "post env req s = (Json 401 (ErrorBody ''invalid secret''), s)"
    by (rule post_rejected)
next
  assume "nullish (body_phone req)" "nullish (body_caller req)" "nullish (body_number req)"
  then show "raw_phone req = JStr []"
    by (rule raw_phone_absent)
next
  assume "body_phone req = JStr []"
  then show "raw_phone req = JStr []"
    by (simp add: raw_phone_first)
next
  assume nr: "\<not> secret_rejected env req" and e: "raw_phone req = JStr []"
  have p: "post env req s = (Json 400 (ErrorBody ''phone missing''), after_secret_check env s)"
    using post_phone_missing [OF nr, of "\<lparr>display = [], digits = []\<rparr>" s] e
    by (simp add: sanitizePhone_empty_string)
  show "fst (post env req s) = Json 400 (ErrorBody ''phone missing'')"
    and "callHistory (snd (post env req s)) = callHistory s"
    and "lastCall (snd (post env req s)) = lastCall s"
    and "sequence (snd (post env req s)) = sequence s"
    and "listeners (snd (post env req s)) = listeners s"
    and "wire (snd (post env req s)) = wire s"
    by (simp_all add: p same_store_after_secret_check)
qed

theorem error_responses_witness:
  "secret_rejected secret_env (call_request ''0712345678'')
   \<and> post secret_env (call_request ''0712345678'') fanout_state
       = (Json 401 (ErrorBody ''invalid secret''), fanout_state)
   \<and> \<not> secret_rejected open_env empty_request
   \<and> raw_phone empty_request = JStr []
   \<and> nullish (body_phone empty_request) \<and> nullish (body_caller empty_request)
   \<and> nullish (body_number empty_request)
   \<and> body_phone (call_request []) = JStr []
   \<and> fst (post open_env empty_request fanout_state) = Json 400 (ErrorBody ''phone missing'')
   \<and> callHistory (snd (post open_env empty_request fanout_state)) = callHistory fanout_state
   \<and> lastCall (snd (post open_env empty_request fanout_state)) = lastCall fanout_state
   \<and> sequence (snd (post open_env empty_request fanout_state)) = sequence fanout_state"
proof -
  have a: "secret_rejected secret_env (call_request ''0712345678'')"
    by (simp add: secret_rejected_def secret_env_def call_request_def empty_request_def
        providedSecret_def js_or_def)
  have b: "\<not> secret_rejected open_env empty_request"
    by (simp add: secret_rejected_def open_env_def)
  have n: "nullish (body_phone empty_request) \<and> nullish (body_caller empty_request)
           \<and> nullish (body_number empty_request)"
    by (simp add: empty_request_def)
  have q: "body_phone (call_request []) = JStr []"
    by (simp add: call_request_def)
  from error_responses_change_nothing [of open_env empty_request fanout_state] n
  have c: "raw_phone empty_request = JStr []"
    by blast
  from error_responses_change_nothing [of secret_env "call_request ''0712345678''" fanout_state] a
  have d: "post secret_env (call_request ''0712345678'') fanout_state
       = (Json 401 (ErrorBody ''invalid secret''), fanout_state)"
    by blast
  from error_responses_change_nothing [of open_env empty_request fanout_state] b c
  have "fst (post open_env empty_request fanout_state) = Json 400 (ErrorBody ''phone missing'')
   \<and> callHistory (snd (post open_env empty_request fanout_state)) = callHistory fanout_state
   \<and> lastCall (snd (post open_env empty_request fanout_state)) = lastCall fanout_state
   \<and> sequence (snd (post open_env empty_request fanout_state)) = sequence fanout_state"
    by blast
  with a b c d n q show ?thesis
    by blast
qed

section \<open>Phone normalization\<close>

lemma sanitizePhone_nullish:
  "nullish raw \<Longrightarrow> sanitizePhone raw = Inr \<lparr>display = [], digits = []\<rparr>"
  by (simp add: sanitizePhone_def)

lemma sanitizePhone_convertible:
  "\<not> nullish raw \<Longrightarrow> js_String raw = Inr s \<Longrightarrow>
   sanitizePhone raw =
     Inr (if filter is_digit (js_trim s) = [] then \<lparr>display = [], digits = []\<rparr>
          else sanitizePhone_spec s)"
  by (auto simp: sanitizePhone_def sanitizePhone_spec_def Let_def)

lemma sanitizePhone_shape:
  assumes "sanitizePhone raw = Inr ph"
  shows "(\<forall>c \<in> set (digits ph). is_digit c) \<and> length (digits ph) \<le> 20
   \<and> (display ph = digits ph \<or> display ph = CHR ''+'' # digits ph)
   \<and> ((display ph = []) = (digits ph = []))"
proof (cases "nullish raw")
  case True
  then show ?thesis
    using assms by (auto simp: sanitizePhone_nullish)
next
  case False
  then obtain str where str: "js_String raw = Inr str"
    using assms by (cases "js_String raw") (simp_all add: sanitizePhone_def)
  let ?ds = "filter is_digit (js_trim str)"
  show ?thesis
  proof (cases "?ds = []")
    case True
    then have "ph = \<lparr>display = [], digits = []\<rparr>"
      using assms sanitizePhone_convertible [OF False str] by simp
    then show ?thesis by simp
  next
    case ne: False
    then have ph: "ph = sanitizePhone_spec str"
      using assms sanitizePhone_convertible [OF False str] by simp
    have dg: "digits ph = take 20 ?ds"
      by (simp add: ph sanitizePhone_spec_def Let_def)
    have dp: "display ph = digits ph \<or> display ph = CHR ''+'' # digits ph"
      by (simp add: ph sanitizePhone_spec_def Let_def)
    have "set (take 20 ?ds) \<subseteq> set ?ds"
      by (rule set_take_subset)
    then have a: "\<forall>c \<in> set (digits ph). is_digit c"
      unfolding dg by auto
    have b: "length (digits ph) \<le> 20"
      unfolding dg by simp
    have c: "digits ph \<noteq> []"
      unfolding dg using ne by simp
    from a b c dp show ?thesis
      by auto
  qed
qed

text \<open>
  The input \<^verbatim>\<open>"+"\<close> starts with \<^verbatim>\<open>+\<close> after trimming and has no digit. As the specification words
  it, its display form is \<^verbatim>\<open>+\<close> followed by the (empty) digits, which is not empty, so the
  call would be ingested. The code returns an empty display form as soon as no digit is
  left, and the request is answered 400.
\<close>

theorem sanitizePhone_plus_only_counterexample:
  "startsWith_plus (js_trim ''+'')
   \<and> sanitizePhone (JStr ''+'') = Inr \<lparr>display = [], digits = []\<rparr>
   \<and> sanitizePhone_spec ''+'' = \<lparr>display = ''+'', digits = []\<rparr>
   \<and> sanitizePhone (JStr ''+'') \<noteq> Inr (sanitizePhone_spec ''+'')
   \<and> fst (post open_env (call_request ''+'') init_state) = Json 400 (ErrorBody ''phone missing'')"
  by code_simp

text \<open>
  C5, as amended. An absent or null input gives an empty display form and empty digits.
  For an input whose string conversion is defined: when the trimmed input has no digit,
  both are empty, whatever the input starts with; otherwise the digits are the digits of
  the trimmed input, cut at 20 characters, and the display form is these digits, prefixed
  with \<^verbatim>\<open>+\<close> exactly when the trimmed input started with \<^verbatim>\<open>+\<close>. In particular
  \<^verbatim>\<open>"+1 (555) 012-3456"\<close> gives the display form \<^verbatim>\<open>+15550123456\<close> and the digits
  \<^verbatim>\<open>15550123456\<close>. When both come out empty the request is rejected (400, or 401 when the
  secret check fails first) and stores nothing.
\<close>

theorem sanitizePhone_digits_and_display:
  "(nullish raw \<longrightarrow> sanitizePhone raw = Inr \<lparr>display = [], digits = []\<rparr>)
   \<and> (\<not> nullish raw \<and> js_String raw = Inr str \<longrightarrow>
        sanitizePhone raw =
          Inr (if filter is_digit (js_trim str) = [] then \<lparr>display = [], digits = []\<rparr>
               else \<lparr>display = (if startsWith_plus (js_trim str)
                                 then CHR ''+'' # take 20 (filter is_digit (js_trim str))
                                 else take 20 (filter is_digit (js_trim str))),
                      digits = take 20 (filter is_digit (js_trim str))\<rparr>))
   \<and> sanitizePhone (JStr ''+1 (555) 012-3456'')
       = Inr \<lparr>display = ''+15550123456'', digits = ''15550123456''\<rparr>
   \<and> (sanitizePhone (raw_phone req) = Inr ph \<and> display ph = [] \<and> digits ph = [] \<longrightarrow>
        fst (post env req s) =
          (if secret_rejected env req then Json 401 (ErrorBody ''invalid secret'')
           else Json 400 (ErrorBody ''phone missing''))
        \<and> callHistory (snd (post env req s)) = callHistory s
        \<and> lastCall (snd (post env req s)) = lastCall s
        \<and> sequence (snd (post env req s)) = sequence s)"
proof (intro conjI impI; (elim conjE)?)
  assume "nullish raw"
  then show "sanitizePhone raw = Inr \<lparr>display = [], digits = []\<rparr>"
    by (rule sanitizePhone_nullish)
next
  assume "\<not> nullish raw" "js_String raw = Inr str"
  then show "sanitizePhone raw =
          Inr (if filter is_digit (js_trim str) = [] then \<lparr>display = [], digits = []\<rparr>
               else \<lparr>display = (if startsWith_plus (js_trim str)
                                 then CHR ''+'' # take 20 (filter is_digit (js_trim str))
                                 else take 20 (filter is_digit (js_trim str))),
                      digits = take 20 (filter is_digit (js_trim str))\<rparr>)"
    by (simp add: sanitizePhone_convertible sanitizePhone_spec_def Let_def)
next
  show "sanitizePhone (JStr ''+1 (555) 012-3456'')
       = Inr \<lparr>display = ''+15550123456'', digits = ''15550123456''\<rparr>"
    by code_simp
next
  assume ph: "sanitizePhone (raw_phone req) = Inr ph" and e: "display ph = []" "digits ph = []"
  have p: "post env req s =
             (if secret_rejected env req then (Json 401 (ErrorBody ''invalid secret''), s)
              else (Json 400 (ErrorBody ''phone missing''), after_secret_check env s))"
    using post_rejected [of env req s] post_phone_missing [OF _ ph, of env s] e by simp
  show "fst (post env req s) =
          (if secret_rejected env req then Json 401 (ErrorBody ''invalid secret'')
           else Json 400 (ErrorBody ''phone missing''))"
    and "callHistory (snd (post env req s)) = callHistory s"
    and "lastCall (snd (post env req s)) = lastCall s"
    and "sequence (snd (post env req s)) = sequence s"
    by (simp_all add: p same_store_after_secret_check)
qed

theorem sanitizePhone_witness:
  "\<not> nullish (JStr '' +40 (712) 345-678 '') \<and> js_String (JStr '' +40 (712) 345-678 '') = Inr '' +40 (712) 345-678 ''
   \<and> sanitizePhone (JStr '' +40 (712) 345-678 '') = Inr \<lparr>display = ''+40712345678'', digits = ''40712345678''\<rparr>
   \<and> nullish JNull \<and> sanitizePhone JNull = Inr \<lparr>display = [], digits = []\<rparr>
   \<and> sanitizePhone (raw_phone (call_request ''n/a'')) = Inr \<lparr>display = [], digits = []\<rparr>
   \<and> fst (post open_env (call_request ''n/a'') init_state) = Json 400 (ErrorBody ''phone missing'')"
proof -
  have a: "\<not> nullish (JStr '' +40 (712) 345-678 '') \<and> js_String (JStr '' +40 (712) 345-678 '') = Inr '' +40 (712) 345-678 ''"
    by simp
  have t: "js_trim '' +40 (712) 345-678 '' = ''+40 (712) 345-678''"
    by code_simp
  from sanitizePhone_digits_and_display [of "JStr '' +40 (712) 345-678 ''" "'' +40 (712) 345-678 ''"] a
  have b: "sanitizePhone (JStr '' +40 (712) 345-678 '') = Inr \<lparr>display = ''+40712345678'', digits = ''40712345678''\<rparr>"
    by (simp add: t is_digit_def startsWith_plus_def)
  from sanitizePhone_digits_and_display [of JNull]
  have c: "sanitizePhone JNull = Inr \<lparr>display = [], digits = []\<rparr>"
    by simp
  have d: "sanitizePhone (raw_phone (call_request ''n/a'')) = Inr \<lparr>display = [], digits = []\<rparr>"
    by code_simp
  have e: "\<not> secret_rejected open_env (call_request ''n/a'')"
    by (simp add: secret_rejected_def open_env_def)
  from sanitizePhone_digits_and_display
         [of JNull "[]" "call_request ''n/a''" "\<lparr>display = [], digits = []\<rparr>" open_env init_state] d e
  have f: "fst (post open_env (call_request ''n/a'') init_state) = Json 400 (ErrorBody ''phone missing'')"
    by simp
  from a b c d f show ?thesis
    by simp
qed

section \<open>Status normalization\<close>

lemma normalizeStatus_spec_falsy_strings:
  "normalizeStatus_spec ''undefined'' = ''ringing''
   \<and> normalizeStatus_spec ''null'' = ''ringing''
   \<and> normalizeStatus_spec ''false'' = ''ringing''
   \<and> normalizeStatus_spec ''0'' = ''ringing''
   \<and> normalizeStatus_spec ''NaN'' = ''ringing''
   \<and> normalizeStatus_spec [] = ''ringing''"
  by code_simp

lemma normalizeStatus_falsy:
  "\<not> truthy raw \<Longrightarrow> js_String raw = Inr str \<Longrightarrow> normalizeStatus_spec str = ''ringing''"
  using normalizeStatus_spec_falsy_strings
  by (cases raw) (auto split: if_splits)

lemma normalizeStatus_convertible:
  "js_String raw = Inr str \<Longrightarrow> normalizeStatus raw = Inr (normalizeStatus_spec str)"
  using normalizeStatus_falsy [of raw str]
  by (cases "truthy raw")
     (simp_all add: normalizeStatus_def normalizeStatus_spec_def STATUS_LABELS_def Let_def)

lemma normalizeStatus_spec_label: "normalizeStatus_spec str \<in> STATUS_LABELS"
  by (simp add: normalizeStatus_spec_def STATUS_LABELS_def Let_def)

text \<open>
  What \<^verbatim>\<open>normalizeStatus\<close> does on every value whose string conversion is defined: it
  returns the trimmed, lowercased value when that is one of the four labels, \<^verbatim>\<open>missed\<close> for
  the two aliases and \<^verbatim>\<open>ringing\<close> otherwise, an absent value included; the result is
  always one of the four labels. It throws exactly when the value is truthy and its string
  conversion throws.
\<close>

theorem normalizeStatus_on_convertible_values:
  "(js_String raw = Inr str \<longrightarrow>
      normalizeStatus raw = Inr (normalizeStatus_spec str)
      \<and> normalizeStatus_spec str \<in> STATUS_LABELS)
   \<and> ((\<exists>e. normalizeStatus raw = Inl e) = (\<exists>e. truthy raw \<and> js_String raw = Inl e))
   \<and> normalizeStatus JUndefined = Inr ''ringing''
   \<and> normalizeStatus (JStr ''WEIRD'') = Inr ''ringing''
   \<and> normalizeStatus (JStr ''NO_ANSWER'') = Inr ''missed''"
proof (intro conjI impI)
  assume c: "js_String raw = Inr str"
  then show "normalizeStatus raw = Inr (normalizeStatus_spec str)"
    by (rule normalizeStatus_convertible)
  show "normalizeStatus_spec str \<in> STATUS_LABELS"
    by (rule normalizeStatus_spec_label)
next
  show "(\<exists>e. normalizeStatus raw = Inl e) = (\<exists>e. truthy raw \<and> js_String raw = Inl e)"
    by (cases "js_String raw") (auto simp: normalizeStatus_def Let_def)
next
  show "normalizeStatus JUndefined = Inr ''ringing''"
    by code_simp
  show "normalizeStatus (JStr ''WEIRD'') = Inr ''ringing''"
    by code_simp
  show "normalizeStatus (JStr ''NO_ANSWER'') = Inr ''missed''"
    by code_simp
qed

theorem normalizeStatus_witness:
  "js_String (JArr [JStr '' Answered '']) = Inr '' Answered ''
   \<and> normalizeStatus (JArr [JStr '' Answered '']) = Inr ''answered''"
proof -
  have a: "js_String (JArr [JStr '' Answered '']) = Inr '' Answered ''"
    by simp
  have b: "normalizeStatus_spec '' Answered '' = ''answered''"
    by code_simp
  from normalizeStatus_on_convertible_values [of "JArr [JStr '' Answered '']" "'' Answered ''"] a b
  show ?thesis
    by simp
qed

text \<open>
  C6 at a status that is an object with an own property \<^verbatim>\<open>toString\<close>, as the JSON body
  \<^verbatim>\<open>{"phone": "0712345678", "status": {"toString": 1}}\<close> carries it: the value is truthy,
  \<^verbatim>\<open>String(rawStatus)\<close> throws a TypeError, \<^verbatim>\<open>normalizeStatus\<close> returns no label and the
  handler ends with that exception, nothing stored. The same call with the status
  \<^verbatim>\<open>"WEIRD"\<close> is ingested.
\<close>

theorem status_object_stops_ingestion:
  "truthy odd_status
   \<and> normalizeStatus odd_status = Inl TypeError
   \<and> fst (post open_env odd_status_request init_state) = Threw TypeError
   \<and> callHistory (snd (post open_env odd_status_request init_state)) = []
   \<and> lastCall (snd (post open_env odd_status_request init_state)) = None
   \<and> fst (post open_env (odd_status_request\<lparr>body_status := JStr ''WEIRD''\<rparr>) init_state)
       = Json 200 SuccessBody"
  by code_simp

section \<open>Sequence numbers\<close>

lemma length_string_of_nat: "0 < length (string_of_nat n)"
  by (subst string_of_nat.simps) simp

lemma digit_nth_inj:
  "i < 10 \<Longrightarrow> j < 10 \<Longrightarrow> ''0123456789'' ! i = ''0123456789'' ! j \<Longrightarrow> i = j"
proof -
  assume i: "i < 10" and j: "j < 10" and e: "''0123456789'' ! i = ''0123456789'' ! j"
  have d: "distinct ''0123456789''" by simp
  have l: "length ''0123456789'' = 10" by simp
  from nth_eq_iff_index_eq [OF d] i j l e show "i = j" by simp
qed

lemma string_of_nat_inj: "string_of_nat n = string_of_nat m \<Longrightarrow> n = m"
proof (induction n arbitrary: m rule: string_of_nat.induct)
  case (1 n)
  show ?case
  proof (cases "n < 10")
    case n: True
    show ?thesis
    proof (cases "m < 10")
      case True
      then show ?thesis
        using n "1.prems" digit_nth_inj [of n m]
        by (simp add: string_of_nat.simps [of n] string_of_nat.simps [of m])
    next
      case False
      then show ?thesis
        using n "1.prems" length_string_of_nat [of "m div 10"]
        by (simp add: string_of_nat.simps [of n] string_of_nat.simps [of m]
            Cons_eq_append_conv)
    qed
  next
    case n: False
    show ?thesis
    proof (cases "m < 10")
      case True
      then show ?thesis
        using n "1.prems" length_string_of_nat [of "n div 10"]
        by (simp add: string_of_nat.simps [of n] string_of_nat.simps [of m]
            append_eq_Cons_conv)
    next
      case False
      then have e: "string_of_nat (n div 10) = string_of_nat (m div 10)"
        and d: "''0123456789'' ! (n mod 10) = ''0123456789'' ! (m mod 10)"
        using n "1.prems"
        by (simp_all add: string_of_nat.simps [of n] string_of_nat.simps [of m])
      have "n div 10 = m div 10"
        by (rule "1.IH" [OF n e])
      moreover have "n mod 10 = m mod 10"
        by (rule digit_nth_inj [OF _ _ d]) simp_all
      ultimately show ?thesis
        by (metis div_mult_mod_eq)
    qed
  qed
qed

lemma post_sequence:
  "(fst (post env req s) = Json 200 SuccessBody
      \<and> sequence (snd (post env req s)) = sequence s + 1
      \<and> (\<exists>entry. lastCall (snd (post env req s)) = Some entry
                   \<and> ev_id entry = string_of_nat (sequence s + 1)))
   \<or> ((\<exists>b. fst (post env req s) = Json 400 b \<or> fst (post env req s) = Json 401 b)
       \<and> sequence (snd (post env req s)) = sequence s)
   \<or> ((\<exists>e. fst (post env req s) = Threw e) \<and> sequence (snd (post env req s)) = sequence s)
   \<or> ((\<exists>e. fst (post env req s) = Threw e \<and> normalizeStatus (body_status req) = Inl e)
       \<and> sequence (snd (post env req s)) = sequence s + 1)"
  using post_outcomes [of env req s] broadcast_same_store
  apply (elim disjE exE conjE)
  apply (auto simp: same_store_after_secret_check same_store_def)
  done

lemma ingested_ids_step:
  "ingested_ids env (req # reqs) s =
     (if fst (post env req s) = Json 200 SuccessBody
      then [string_of_nat (sequence s + 1)] else [])
     @ ingested_ids env reqs (snd (post env req s))"
  using post_sequence [of env req s]
  by (cases "post env req s") (auto simp: ingested_ids.simps split: outcome.splits)

lemma post_sequence_mono: "sequence s \<le> sequence (snd (post env req s))"
  using post_sequence [of env req s] by auto

lemma ingested_ids_increasing:
  "\<exists>ns. ingested_ids env reqs s = map string_of_nat ns \<and> sorted_wrt (<) ns
        \<and> (\<forall>n \<in> set ns. sequence s < n)"
proof (induction reqs arbitrary: s)
  case Nil
  show ?case by (simp add: ingested_ids.simps)
next
  case (Cons req reqs)
  let ?s1 = "snd (post env req s)"
  from Cons.IH [of ?s1] obtain ns where
    ns: "ingested_ids env reqs ?s1 = map string_of_nat ns" "sorted_wrt (<) ns"
        "\<forall>n \<in> set ns. sequence ?s1 < n"
    by blast
  show ?case
  proof (cases "fst (post env req s) = Json 200 SuccessBody")
    case True
    then have q: "sequence ?s1 = sequence s + 1"
      using post_sequence [of env req s] by auto
    have "ingested_ids env (req # reqs) s = map string_of_nat ((sequence s + 1) # ns)"
      using True ns(1) by (simp add: ingested_ids_step)
    moreover have "sorted_wrt (<) ((sequence s + 1) # ns)"
      using ns(2,3) q by auto
    moreover have "\<forall>n \<in> set ((sequence s + 1) # ns). sequence s < n"
      using ns(3) q by auto
    ultimately show ?thesis by blast
  next
    case False
    have "ingested_ids env (req # reqs) s = map string_of_nat ns"
      using False ns(1) by (simp add: ingested_ids_step)
    moreover have "\<forall>n \<in> set ns. sequence s < n"
      using ns(3) post_sequence_mono [of s env req] by auto
    ultimately show ?thesis using ns(2) by blast
  qed
qed

lemma ingest_all_Cons:
  "ingest_all env (req # reqs) s = ingest_all env reqs (snd (post env req s))"
  by (simp add: ingest_all_def)

lemma ingested_ids_gapless:
  "\<forall>r \<in> set reqs. \<forall>e. normalizeStatus (body_status r) \<noteq> Inl e \<Longrightarrow>
   ingested_ids env reqs s =
     map string_of_nat [Suc (sequence s) ..< Suc (sequence s) + length (ingested_ids env reqs s)]
   \<and> sequence (ingest_all env reqs s) = sequence s + length (ingested_ids env reqs s)"
proof (induction reqs arbitrary: s)
  case Nil
  show ?case by (simp add: ingest_all_def ingested_ids.simps)
next
  case (Cons req reqs)
  let ?s1 = "snd (post env req s)"
  let ?ids = "ingested_ids env reqs ?s1"
  have ok: "\<forall>r \<in> set reqs. \<forall>e. normalizeStatus (body_status r) \<noteq> Inl e"
    and this_ok: "\<forall>e. normalizeStatus (body_status req) \<noteq> Inl e"
    using Cons.prems by simp_all
  from Cons.IH [OF ok, of ?s1] have
    ih: "?ids = map string_of_nat [Suc (sequence ?s1) ..< Suc (sequence ?s1) + length ?ids]"
    and sq: "sequence (ingest_all env reqs ?s1) = sequence ?s1 + length ?ids"
    by blast+
  show ?case
  proof (cases "fst (post env req s) = Json 200 SuccessBody")
    case True
    then have q: "sequence ?s1 = Suc (sequence s)"
      using post_sequence [of env req s] by auto
    have step: "ingested_ids env (req # reqs) s = string_of_nat (Suc (sequence s)) # ?ids"
      using True by (simp add: ingested_ids_step)
    have "[Suc (sequence s) ..< Suc (sequence s) + Suc (length ?ids)]
            = Suc (sequence s) # [Suc (sequence ?s1) ..< Suc (sequence ?s1) + length ?ids]"
      unfolding q using upt_conv_Cons [of "Suc (sequence s)" "Suc (sequence s) + Suc (length ?ids)"]
      by simp
    then have "ingested_ids env (req # reqs) s =
        map string_of_nat [Suc (sequence s) ..<
          Suc (sequence s) + length (ingested_ids env (req # reqs) s)]"
      using ih by (simp only: step length_Cons list.map)
    moreover have "sequence (ingest_all env (req # reqs) s)
                     = sequence s + length (ingested_ids env (req # reqs) s)"
      by (simp add: ingest_all_Cons sq q step)
    ultimately show ?thesis by blast
  next
    case False
    then have q: "sequence ?s1 = sequence s"
      using post_sequence [of env req s] this_ok by auto
    have step: "ingested_ids env (req # reqs) s = ?ids"
      using False by (simp add: ingested_ids_step)
    show ?thesis
      using ih sq by (simp add: step ingest_all_Cons q)
  qed
qed

text \<open>
  The ids of a run of ingestion requests, from any state: they are the renderings of
  strictly increasing numbers above the counter's value, so no id is repeated (the
  rendering is injective). When no status conversion throws in the run, they are the
  consecutive numbers after the counter's value, and from the start of the process the
  n-th successful ingestion gets the id n.
\<close>

theorem ingested_ids_increasing_and_gapless:
  "(\<exists>ns. ingested_ids env reqs s = map string_of_nat ns \<and> sorted_wrt (<) ns
         \<and> (\<forall>n \<in> set ns. sequence s < n))
   \<and> distinct (ingested_ids env reqs s)
   \<and> ((\<forall>r \<in> set reqs. \<forall>e. normalizeStatus (body_status r) \<noteq> Inl e) \<longrightarrow>
        ingested_ids env reqs s =
          map string_of_nat
            [Suc (sequence s) ..< Suc (sequence s) + length (ingested_ids env reqs s)]
        \<and> sequence (ingest_all env reqs s) = sequence s + length (ingested_ids env reqs s))"
proof (intro conjI impI)
  show inc: "\<exists>ns. ingested_ids env reqs s = map string_of_nat ns \<and> sorted_wrt (<) ns
         \<and> (\<forall>n \<in> set ns. sequence s < n)"
    by (rule ingested_ids_increasing)
  then obtain ns where ns: "ingested_ids env reqs s = map string_of_nat ns" "sorted_wrt (<) ns"
    by blast
  have "distinct ns"
    using ns(2) by (simp add: strict_sorted_iff)
  moreover have "inj_on string_of_nat (set ns)"
    by (rule inj_onI) (rule string_of_nat_inj)
  ultimately show "distinct (ingested_ids env reqs s)"
    by (simp add: ns(1) distinct_map)
next
  assume a: "\<forall>r \<in> set reqs. \<forall>e. normalizeStatus (body_status r) \<noteq> Inl e"
  from ingested_ids_gapless [OF a, of env s]
  show "ingested_ids env reqs s =
          map string_of_nat
            [Suc (sequence s) ..< Suc (sequence s) + length (ingested_ids env reqs s)]"
    and "sequence (ingest_all env reqs s) = sequence s + length (ingested_ids env reqs s)"
    by blast+
qed

theorem ingested_ids_witness:
  "normalizeStatus (body_status (call_request ''0712345678'')) = Inr ''ringing''
   \<and> normalizeStatus (body_status empty_request) = Inr ''ringing''
   \<and> normalizeStatus (body_status (call_request ''+40 21 555 0100'')) = Inr ''ringing''
   \<and> ingested_ids open_env
        [call_request ''0712345678'', empty_request, call_request ''+40 21 555 0100''] init_state
       = [''1'', ''2'']
   \<and> sequence (ingest_all open_env
        [call_request ''0712345678'', empty_request, call_request ''+40 21 555 0100''] init_state)
       = 2"
proof -
  let ?reqs = "[call_request ''0712345678'', empty_request, call_request ''+40 21 555 0100'']"
  have n: "normalizeStatus JUndefined = Inr ''ringing''"
    by code_simp
  have a: "\<forall>r \<in> set ?reqs. \<forall>e. normalizeStatus (body_status r) \<noteq> Inl e"
    by (simp add: call_request_def empty_request_def n)
  have i: "ingested_ids open_env ?reqs init_state = [''1'', ''2'']"
    by code_simp
  from ingested_ids_increasing_and_gapless [of open_env ?reqs init_state] a
  have "sequence (ingest_all open_env ?reqs init_state)
          = sequence init_state + length (ingested_ids open_env ?reqs init_state)"
    by blast
  then have "sequence (ingest_all open_env ?reqs init_state) = 2"
    by (simp only: i) (simp add: init_state_def)
  moreover have "normalizeStatus (body_status (call_request ''0712345678'')) = Inr ''ringing''
   \<and> normalizeStatus (body_status empty_request) = Inr ''ringing''
   \<and> normalizeStatus (body_status (call_request ''+40 21 555 0100'')) = Inr ''ringing''"
    by (simp add: call_request_def empty_request_def n)
  ultimately show ?thesis
    using i by blast
qed

text \<open>
  C1 at the same request followed by a well-formed one. The handler increments the counter
  before it normalizes the status, so the request that throws there has used the id 1
  without storing an event, and the first successful ingestion of the process gets the id 2.
\<close>

theorem thrown_status_skips_an_id:
  "fst (post open_env odd_status_request init_state) = Threw TypeError
   \<and> sequence (snd (post open_env odd_status_request init_state)) = 1
   \<and> ingested_ids open_env [odd_status_request, call_request ''0712345678''] init_state = [''2'']
   \<and> map ev_id (callHistory (ingest_all open_env
                                [odd_status_request, call_request ''0712345678''] init_state))
       = [''2'']"
  by code_simp

section \<open>Properties of the history read\<close>

lemma log_limit_convertible:
  "js_String q = Inr str \<Longrightarrow> log_limit q = Inr (clamped_limit str)"
  by (auto simp: log_limit_def clamped_limit_def MAX_HISTORY_def Let_def split: option.splits)

lemma clamped_limit_range: "1 \<le> clamped_limit str \<and> clamped_limit str \<le> MAX_HISTORY"
  by (auto simp: clamped_limit_def MAX_HISTORY_def split: option.splits)

lemma caller_name_log_row:
  "caller_name (log_row people e) =
     (case meta_callerName e of
        None \<Rightarrow> looked_up_name people e
      | Some n \<Rightarrow> if n = [] then looked_up_name people e else JStr n)"
  by (auto simp: log_row_def Let_def js_or_def js_of_string_option_def looked_up_name_def
      opt_name_def split: option.splits)

lemma person_id_log_row:
  "le_person_id (log_row people e) =
     (if truthy (meta_personId e) then meta_personId e else looked_up_id people e)"
  by (auto simp: log_row_def Let_def js_or_def looked_up_id_def opt_id_def split: option.splits)

lemma copied_log_row:
  "le_id (log_row people e) = ev_id e \<and> le_phone (log_row people e) = ev_phone e
   \<and> le_digits (log_row people e) = ev_digits e
   \<and> le_received_at (log_row people e) = ev_received_at e
   \<and> le_extension (log_row people e) = ev_extension e
   \<and> le_source (log_row people e) = ev_source e
   \<and> le_status (log_row people e) = ev_status e
   \<and> le_note (log_row people e) = ev_note e"
  by (simp add: log_row_def Let_def)

lemma get_log_convertible:
  "js_String q = Inr str \<Longrightarrow>
   get_log env True q s =
     (Json 200 (EntriesBody
        (map (log_row (people_by_phone env
                         (distinct_digits (take (clamped_limit str) (callHistory s)))))
           (take (clamped_limit str) (callHistory s)))), s)"
  by (simp add: get_log_def log_limit_convertible Let_def)

text \<open>
  The limit \<^verbatim>\<open>0\<close>: clamped to \<open>1..500\<close> it would be 1, and a read of a history of two calls
  would return one entry. \<^verbatim>\<open>Number.parseInt("0", 10) || 100\<close> is 100, since 0 is falsy, and
  the read returns both entries.
\<close>

theorem history_read_zero_limit_counterexample:
  "limit_spec ''0'' = 1
   \<and> log_limit (JStr ''0'') = Inr 100
   \<and> length (callHistory two_calls_state) = 2
   \<and> map le_id (response_entries (fst (get_log open_env True (JStr ''0'') two_calls_state)))
       = [''2'', ''1'']"
  by code_simp

text \<open>
  C8, as amended. A history read without authorization is answered 401. An authorized one,
  for a limit parameter whose string conversion is defined, uses the limit
  \<open>clamped_limit\<close>: 100 when the parameter is absent, does not start with a number or is
  zero, and otherwise the number clamped to \<open>1..500\<close>. The response holds the first
  \<open>min limit length\<close> entries of the history in its newest-first order, each with the
  stored fields copied. In each entry the stored caller name is returned when there is one
  (a non-empty string) and the stored person id when it is truthy; otherwise the entry
  falls back to the directory lookup for its digits, and to \<^verbatim>\<open>null\<close> when the lookup has
  nothing truthy.
\<close>

theorem history_read_limit_and_precedence:
  "get_log env False q s = (Json 401 (ErrorBody ''auth required''), s)
   \<and> log_limit JUndefined = Inr 100
   \<and> (js_String q = Inr str \<longrightarrow>
        log_limit q = Inr (clamped_limit str)
        \<and> 1 \<le> clamped_limit str \<and> clamped_limit str \<le> MAX_HISTORY
        \<and> get_log env True q s =
            (Json 200 (EntriesBody
               (map (log_row (people_by_phone env
                                (distinct_digits (take (clamped_limit str) (callHistory s)))))
                  (take (clamped_limit str) (callHistory s)))), s)
        \<and> length (response_entries (fst (get_log env True q s)))
            = min (clamped_limit str) (length (callHistory s))
        \<and> map le_id (response_entries (fst (get_log env True q s)))
            = map ev_id (take (clamped_limit str) (callHistory s)))
   \<and> le_id (log_row people e) = ev_id e \<and> le_phone (log_row people e) = ev_phone e
   \<and> le_digits (log_row people e) = ev_digits e
   \<and> le_received_at (log_row people e) = ev_received_at e
   \<and> le_extension (log_row people e) = ev_extension e
   \<and> le_source (log_row people e) = ev_source e
   \<and> le_status (log_row people e) = ev_status e
   \<and> le_note (log_row people e) = ev_note e
   \<and> caller_name (log_row people e) =
       (case meta_callerName e of
          None \<Rightarrow> looked_up_name people e
        | Some n \<Rightarrow> if n = [] then looked_up_name people e else JStr n)
   \<and> le_person_id (log_row people e) =
       (if truthy (meta_personId e) then meta_personId e else looked_up_id people e)"
proof -
  have a: "get_log env False q s = (Json 401 (ErrorBody ''auth required''), s)"
    by (simp add: get_log_def)
  have b: "log_limit JUndefined = Inr 100"
    by code_simp
  have c: "js_String q = Inr str \<longrightarrow>
        log_limit q = Inr (clamped_limit str)
        \<and> 1 \<le> clamped_limit str \<and> clamped_limit str \<le> MAX_HISTORY
        \<and> get_log env True q s =
            (Json 200 (EntriesBody
               (map (log_row (people_by_phone env
                                (distinct_digits (take (clamped_limit str) (callHistory s)))))
                  (take (clamped_limit str) (callHistory s)))), s)
        \<and> length (response_entries (fst (get_log env True q s)))
            = min (clamped_limit str) (length (callHistory s))
        \<and> map le_id (response_entries (fst (get_log env True q s)))
            = map ev_id (take (clamped_limit str) (callHistory s))"
  proof
    assume q: "js_String q = Inr str"
    note g = get_log_convertible [OF q, of env s]
    have "length (response_entries (fst (get_log env True q s)))
            = min (clamped_limit str) (length (callHistory s))"
      by (simp add: g response_entries_def min.commute)
    moreover have "map le_id (response_entries (fst (get_log env True q s)))
            = map ev_id (take (clamped_limit str) (callHistory s))"
      by (simp add: g response_entries_def copied_log_row)
    ultimately show "log_limit q = Inr (clamped_limit str)
        \<and> 1 \<le> clamped_limit str \<and> clamped_limit str \<le> MAX_HISTORY
        \<and> get_log env True q s =
            (Json 200 (EntriesBody
               (map (log_row (people_by_phone env
                                (distinct_digits (take (clamped_limit str) (callHistory s)))))
                  (take (clamped_limit str) (callHistory s)))), s)
        \<and> length (response_entries (fst (get_log env True q s)))
            = min (clamped_limit str) (length (callHistory s))
        \<and> map le_id (response_entries (fst (get_log env True q s)))
            = map ev_id (take (clamped_limit str) (callHistory s))"
      using log_limit_convertible [OF q] clamped_limit_range [of str] g by simp
  qed
  show ?thesis
    using a b c copied_log_row [of people e] caller_name_log_row [of people e]
      person_id_log_row [of people e]
    by (simp only: simp_thms)
qed

theorem history_read_witness:
  "js_String (JStr ''2'') = Inr ''2''
   \<and> clamped_limit ''2'' = 2
   \<and> map le_id (response_entries (fst (get_log directory_env True (JStr ''2'') two_calls_state)))
       = [''2'', ''1'']
   \<and> map caller_name
        (response_entries (fst (get_log directory_env True (JStr ''2'') two_calls_state)))
       = [JStr ''Ion'', JStr ''Ana'']"
proof -
  have q: "js_String (JStr ''2'') = Inr ''2''"
    by simp
  have l: "clamped_limit ''2'' = 2"
    by code_simp
  from history_read_limit_and_precedence [of directory_env "JStr ''2''" two_calls_state "''2''"] q
  have g: "get_log directory_env True (JStr ''2'') two_calls_state =
            (Json 200 (EntriesBody
               (map (log_row (people_by_phone directory_env
                                (distinct_digits (take (clamped_limit ''2'') (callHistory two_calls_state)))))
                  (take (clamped_limit ''2'') (callHistory two_calls_state)))), two_calls_state)"
    by blast
  have i: "map le_id (map (log_row (people_by_phone directory_env
                                (distinct_digits (take (clamped_limit ''2'') (callHistory two_calls_state)))))
                  (take (clamped_limit ''2'') (callHistory two_calls_state))) = [''2'', ''1'']"
    by code_simp
  have n: "map caller_name (map (log_row (people_by_phone directory_env
                                (distinct_digits (take (clamped_limit ''2'') (callHistory two_calls_state)))))
                  (take (clamped_limit ''2'') (callHistory two_calls_state))) = [JStr ''Ion'', JStr ''Ana'']"
    by code_simp
  show ?thesis
    using q l i n by (simp only: g response_entries_def fst_conv outcome.case body.case simp_thms)
qed

lemma people_by_phone_failed:
  "db_query env ds = Inl err \<Longrightarrow> people_by_phone env ds = Map.empty"
  by (simp add: people_by_phone_def)

lemma people_by_phone_no_rows:
  "people_by_phone (env\<lparr>db_query := (\<lambda>ds. Inr [])\<rparr>) ds = Map.empty"
  by (simp add: people_by_phone_def)

text \<open>
  C9. Let every directory lookup fail. An authorized history read that reaches the lookup
  (the string conversion of its limit parameter is defined) still answers 200, with the same
  entries as a read whose lookup finds no row: every \<^verbatim>\<open>caller_name\<close> is the name stored at
  ingestion, or \<^verbatim>\<open>null\<close> when none was stored, and every \<^verbatim>\<open>person_id\<close> the stored one or
  \<^verbatim>\<open>null\<close>. The read leaves the state as it was, so whatever happens next (an ingestion,
  a stream request, a timer) proceeds as if the read had not taken place.
\<close>

theorem history_read_survives_lookup_failure:
  "(\<forall>ds. \<exists>err. db_query env ds = Inl err) \<and> js_String q = Inr str \<longrightarrow>
     get_log env True q s =
       (Json 200 (EntriesBody
          (map (log_row Map.empty) (take (clamped_limit str) (callHistory s)))), s)
     \<and> get_log env True q s = get_log (env\<lparr>db_query := (\<lambda>ds. Inr [])\<rparr>) True q s
     \<and> length (response_entries (fst (get_log env True q s)))
         = min (clamped_limit str) (length (callHistory s))
     \<and> (\<forall>r \<in> set (response_entries (fst (get_log env True q s))).
           \<exists>e \<in> set (callHistory s).
             le_id r = ev_id e
             \<and> caller_name r =
                 (case meta_callerName e of
                    None \<Rightarrow> JNull
                  | Some n \<Rightarrow> if n = [] then JNull else JStr n)
             \<and> le_person_id r = (if truthy (meta_personId e) then meta_personId e else JNull))
     \<and> snd (get_log env True q s) = s
     \<and> step env ev (snd (get_log env True q s)) = step env ev s"
proof (intro impI; elim conjE)
  assume f: "\<forall>ds. \<exists>err. db_query env ds = Inl err" and q: "js_String q = Inr str"
  let ?slice = "take (clamped_limit str) (callHistory s)"
  from f obtain err where "db_query env (distinct_digits ?slice) = Inl err"
    by blast
  then have p: "people_by_phone env (distinct_digits ?slice) = Map.empty"
    by (rule people_by_phone_failed)
  have g: "get_log env True q s = (Json 200 (EntriesBody (map (log_row Map.empty) ?slice)), s)"
    using get_log_convertible [OF q, of env s] p by simp
  have g0: "get_log (env\<lparr>db_query := (\<lambda>ds. Inr [])\<rparr>) True q s
              = (Json 200 (EntriesBody (map (log_row Map.empty) ?slice)), s)"
    using get_log_convertible [OF q, of "env\<lparr>db_query := (\<lambda>ds. Inr [])\<rparr>" s]
    by (simp add: people_by_phone_no_rows)
  have r: "\<forall>r \<in> set (response_entries (fst (get_log env True q s))).
           \<exists>e \<in> set (callHistory s).
             le_id r = ev_id e
             \<and> caller_name r =
                 (case meta_callerName e of
                    None \<Rightarrow> JNull
                  | Some n \<Rightarrow> if n = [] then JNull else JStr n)
             \<and> le_person_id r = (if truthy (meta_personId e) then meta_personId e else JNull)"
  proof
    fix r assume "r \<in> set (response_entries (fst (get_log env True q s)))"
    then obtain e where e: "e \<in> set ?slice" and re: "r = log_row Map.empty e"
      by (auto simp: g response_entries_def)
    from e have "e \<in> set (callHistory s)"
      by (rule in_set_takeD)
    moreover have "le_id r = ev_id e"
      by (simp add: re copied_log_row)
    moreover have "caller_name r =
                 (case meta_callerName e of
                    None \<Rightarrow> JNull
                  | Some n \<Rightarrow> if n = [] then JNull else JStr n)"
      by (simp add: re caller_name_log_row looked_up_name_def lookup_person_def
          split: option.splits)
    moreover have "le_person_id r = (if truthy (meta_personId e) then meta_personId e else JNull)"
      by (simp add: re person_id_log_row looked_up_id_def lookup_person_def)
    ultimately show "\<exists>e \<in> set (callHistory s).
             le_id r = ev_id e
             \<and> caller_name r =
                 (case meta_callerName e of
                    None \<Rightarrow> JNull
                  | Some n \<Rightarrow> if n = [] then JNull else JStr n)
             \<and> le_person_id r = (if truthy (meta_personId e) then meta_personId e else JNull)"
      by blast
  qed
  have len: "length (response_entries (fst (get_log env True q s)))
         = min (clamped_limit str) (length (callHistory s))"
    by (simp add: g response_entries_def min.commute)
  show "get_log env True q s =
       (Json 200 (EntriesBody
          (map (log_row Map.empty) (take (clamped_limit str) (callHistory s)))), s)
     \<and> get_log env True q s = get_log (env\<lparr>db_query := (\<lambda>ds. Inr [])\<rparr>) True q s
     \<and> length (response_entries (fst (get_log env True q s)))
         = min (clamped_limit str) (length (callHistory s))
     \<and> (\<forall>r \<in> set (response_entries (fst (get_log env True q s))).
           \<exists>e \<in> set (callHistory s).
             le_id r = ev_id e
             \<and> caller_name r =
                 (case meta_callerName e of
                    None \<Rightarrow> JNull
                  | Some n \<Rightarrow> if n = [] then JNull else JStr n)
             \<and> le_person_id r = (if truthy (meta_personId e) then meta_personId e else JNull))
     \<and> snd (get_log env True q s) = s
     \<and> step env ev (snd (get_log env True q s)) = step env ev s"
    using g g0 r len by simp
qed

theorem lookup_failure_witness:
  "(\<forall>ds. \<exists>err. db_query failing_db_env ds = Inl err)
   \<and> js_String JUndefined = Inr ''undefined''
   \<and> get_log failing_db_env True JUndefined two_calls_state
       = get_log (failing_db_env\<lparr>db_query := (\<lambda>ds. Inr [])\<rparr>) True JUndefined two_calls_state
   \<and> map caller_name
        (response_entries (fst (get_log failing_db_env True JUndefined two_calls_state)))
       = [JNull, JStr ''Ana'']
   \<and> snd (get_log failing_db_env True JUndefined two_calls_state) = two_calls_state"
proof -
  have f: "\<forall>ds. \<exists>err. db_query failing_db_env ds = Inl err"
    by (simp add: failing_db_env_def)
  have q: "js_String JUndefined = Inr ''undefined''"
    by simp
  from history_read_survives_lookup_failure
         [of failing_db_env JUndefined "''undefined''" two_calls_state "Break 0"] f q
  have g: "get_log failing_db_env True JUndefined two_calls_state =
       (Json 200 (EntriesBody
          (map (log_row Map.empty)
             (take (clamped_limit ''undefined'') (callHistory two_calls_state)))), two_calls_state)"
    and z: "get_log failing_db_env True JUndefined two_calls_state
       = get_log (failing_db_env\<lparr>db_query := (\<lambda>ds. Inr [])\<rparr>) True JUndefined two_calls_state"
    by blast+
  have n: "map caller_name (map (log_row Map.empty)
             (take (clamped_limit ''undefined'') (callHistory two_calls_state)))
           = [JNull, JStr ''Ana'']"
    by code_simp
  have "map caller_name
        (response_entries (fst (get_log failing_db_env True JUndefined two_calls_state)))
       = [JNull, JStr ''Ana'']"
    using n by (simp only: g response_entries_def fst_conv outcome.case body.case)
  moreover have "snd (get_log failing_db_env True JUndefined two_calls_state) = two_calls_state"
    by (simp only: g snd_conv)
  ultimately show ?thesis
    using f q z by blast
qed

end
